theory Spec2Isabelle
  imports Main "HOL-Library.Word"
begin

unbundle bit_operations_syntax

section \<open>Interior btree node updates of bcachefs (libbcachefs/btree\_update\_interior.c)\<close>

text \<open>
  A shallow embedding of the functions of \<^verbatim>\<open>btree_update_interior.c\<close>. Every
  \<^verbatim>\<open>BUG_ON\<close> of the source is a branch that returns \<open>Inl BUG\<close>; an errno returned by
  the source is \<open>Inl (Errno n)\<close>.
\<close>

datatype error = BUG | NULL_deref | Errno int

type_synonym u8 = "8 word"
type_synonym u16 = "16 word"
type_synonym u64 = "64 word"

definition U16_MAX :: u16 where
  "U16_MAX = 65535"

subsection \<open>Packed key formats and the size of a node under a format\<close>

text \<open>
  \<^verbatim>\<open>struct bkey_format\<close>: only \<^verbatim>\<open>key_u64s\<close> (the width of a packed key, in u64s) is
  read by the functions below; the per-field widths are kept as the source has them.
\<close>

record bkey_format =
  key_u64s :: u8
  nr_fields :: u8
  bits_per_field :: "u8 list"
  field_offset :: "u64 list"

text \<open>\<^verbatim>\<open>struct btree_nr_keys\<close>: the key accounting of a node.\<close>

record btree_nr_keys =
  live_u64s :: u16
  bset_u64s :: "u16 list"
  packed_keys :: u16
  unpacked_keys :: u16

subsection \<open>Keys and nodes\<close>

text \<open>
  \<^verbatim>\<open>struct bpos\<close>. \<^verbatim>\<open>bkey_successor\<close> is declared outside this file; the functions
  below take it as the argument \<open>succ\<close>.
\<close>

record bpos =
  inode :: u64
  offset :: u64
  snapshot :: "32 word"

text \<open>
  The key types this file tests for. \<^verbatim>\<open>bkey_deleted(k)\<close> is
  \<^verbatim>\<open>k->type == KEY_TYPE_deleted\<close>.
\<close>

datatype key_type =
  KEY_TYPE_deleted | KEY_TYPE_btree_ptr | KEY_TYPE_btree_ptr_v2 | KEY_TYPE_other nat

text \<open>
  A key with its value, as it lies in a bset (\<^verbatim>\<open>struct bkey_packed\<close>) or stands as the
  pointer to a node (\<^verbatim>\<open>b->key\<close>, a \<^verbatim>\<open>bkey_i\<close>): \<open>k_u64s\<close> is \<^verbatim>\<open>k.u64s\<close>, the
  size of key and value in u64s; \<open>k_packed\<close> is \<^verbatim>\<open>bkey_packed(k)\<close>; \<open>k_p\<close> is \<^verbatim>\<open>k.p\<close>,
  the position \<^verbatim>\<open>bkey_unpack_pos\<close> reads; \<open>v_min_key\<close> is \<^verbatim>\<open>v.min_key\<close> of a
  \<^verbatim>\<open>btree_ptr_v2\<close> value.
\<close>

record bkey =
  k_u64s :: nat
  k_packed :: bool
  k_type :: key_type
  k_p :: bpos
  v_min_key :: bpos

definition bkey_deleted :: "bkey \<Rightarrow> bool" where
  "bkey_deleted k = (k_type k = KEY_TYPE_deleted)"

text \<open>
  Modelled from the spec: \<^verbatim>\<open>bkey_whiteout\<close>, declared outside this file. The spec's
  glossary: a whiteout is a deleted-key marker still present in a bset until compaction
  removes it.
\<close>

definition bkey_whiteout :: "bkey \<Rightarrow> bool" where
  "bkey_whiteout k = bkey_deleted k"

datatype btree_flag =
  BTREE_NODE_dirty | BTREE_NODE_need_write | BTREE_NODE_dying | BTREE_NODE_fake |
  BTREE_NODE_noevict | BTREE_NODE_accessed | BTREE_NODE_need_rewrite |
  BTREE_NODE_old_extent_overwrite

datatype btree_cache_list = Cache_live | Cache_freeable | Cache_freed

text \<open>
  A journal pin (\<^verbatim>\<open>struct journal_entry_pin\<close>): \<open>None\<close> when the pin is not active,
  \<open>Some seq\<close> when it pins journal sequence number \<open>seq\<close>.
\<close>

type_synonym journal_entry_pin = "u64 option"

type_synonym update_ref = u64
type_synonym node_ref = nat

text \<open>
  \<^verbatim>\<open>struct btree\<close>, as far as this file reads and writes it. \<open>data_min_key\<close>,
  \<open>data_max_key\<close>, \<open>data_format\<close> and \<open>data_seq\<close> are the fields of \<^verbatim>\<open>b->data\<close>
  (\<^verbatim>\<open>BTREE_NODE_SEQ(b->data)\<close> for the last, a bit field of \<^verbatim>\<open>b->data->flags\<close>). \<open>sets\<close> are the bsets \<^verbatim>\<open>b->set[0 ..< nsets]\<close>,
  each the list of its keys in order; a node built by this file has one bset. A list
  holds the keys proper (\<open>k_u64s \<ge> 1\<close>): padding words between keys are not represented,
  so the u64 offset of a key in its bset is the sum of \<open>k_u64s\<close> of the keys in front of
  it. \<open>write_blocked\<close> lists the updates on \<^verbatim>\<open>b->write_blocked\<close>, first entry first.
  \<open>writes\<close> holds the journal pins of \<^verbatim>\<open>btree_current_write(b)\<close> and
  \<^verbatim>\<open>btree_prev_write(b)\<close>. \<open>cache_list\<close> says which list of the node cache
  \<^verbatim>\<open>b->list\<close> is linked on, if any.
\<close>

record btree =
  level :: nat
  btree_id :: nat
  flags :: "btree_flag set"
  key :: bkey
  data_min_key :: bpos
  data_max_key :: bpos
  data_format :: bkey_format
  data_seq :: "32 word"
  format :: bkey_format
  nr :: btree_nr_keys
  sib_u64s :: "u16 \<times> u16"
  sets :: "bkey list list"
  write_blocked :: "update_ref list"
  will_make_reachable :: u64
  ob :: "nat list"
  writes :: "journal_entry_pin \<times> journal_entry_pin"
  cache_list :: "btree_cache_list option"
  written :: nat

text \<open>
  Constants and macros that the source uses and that are declared in headers outside
  this file. They are parameters of the model.
  \<^item> \<open>BKEY_U64s\<close>: the width of an unpacked key in u64s.
  \<^item> \<open>btree_node_hdr_bytes\<close>: \<^verbatim>\<open>offsetof(struct btree_node, _data)\<close>, the bytes of
    \<^verbatim>\<open>struct btree_node\<close> in front of its keys (checksum, magic, flags, min\_key, max\_key,
    ptr, format and the header of the first bset: the fields this file writes through
    \<^verbatim>\<open>b->data\<close>). \<^verbatim>\<open>__vstruct_bytes(struct btree_node, u64s)\<close> is that offset plus
    eight bytes per u64.
  \<^item> \<open>btree_bytes\<close>: \<^verbatim>\<open>btree_bytes(c)\<close>, the size of a btree node in bytes.
  \<^item> \<open>btree_max_u64s\<close>, \<open>MERGE_THRESHOLD\<close>, \<open>MERGE_HYSTERESIS\<close>, \<open>SPLIT_THRESHOLD\<close>:
    \<^verbatim>\<open>btree_max_u64s(c)\<close>, \<^verbatim>\<open>BTREE_FOREGROUND_MERGE_THRESHOLD(c)\<close>,
    \<^verbatim>\<open>BTREE_FOREGROUND_MERGE_HYSTERESIS(c)\<close> and \<^verbatim>\<open>BTREE_SPLIT_THRESHOLD(c)\<close>.
  \<^item> \<open>CONFIG_BCACHEFS_DEBUG\<close>: whether the debug checks are compiled in.
\<close>

record btree_consts =
  BKEY_U64s :: nat
  btree_node_hdr_bytes :: nat
  btree_bytes :: nat
  btree_max_u64s :: nat
  MERGE_THRESHOLD :: nat
  MERGE_HYSTERESIS :: nat
  SPLIT_THRESHOLD :: nat
  CONFIG_BCACHEFS_DEBUG :: bool

definition vstruct_bytes_btree_node :: "btree_consts \<Rightarrow> nat \<Rightarrow> nat" where
  "vstruct_bytes_btree_node c u64s = btree_node_hdr_bytes c + u64s * 8"

text \<open>
  \<^verbatim>\<open>btree_node_u64s_with_format\<close>. The source computes \<open>delta\<close> in \<^verbatim>\<open>int\<close> from
  an 8-bit and 16-bit operands (at most \<open>2 * 255 * 65535\<close> in magnitude, so nothing wraps),
  widens it to \<^verbatim>\<open>ssize_t\<close> and stops on \<^verbatim>\<open>BUG_ON(delta + b->nr.live_u64s < 0)\<close>.
\<close>

definition format_delta :: "btree_consts \<Rightarrow> btree \<Rightarrow> bkey_format \<Rightarrow> int" where
  "format_delta c b new_f =
     (uint (key_u64s new_f) - uint (key_u64s (format b))) * uint (packed_keys (nr b)) +
     (uint (key_u64s new_f) - int (BKEY_U64s c)) * uint (unpacked_keys (nr b))"

definition btree_node_u64s_with_format ::
  "btree_consts \<Rightarrow> btree \<Rightarrow> bkey_format \<Rightarrow> error + nat" where
  "btree_node_u64s_with_format c b new_f =
     (let delta = format_delta c b new_f in
      if delta + uint (live_u64s (nr b)) < 0 then Inl BUG
      else Inr (nat (uint (live_u64s (nr b)) + delta)))"

definition bch2_btree_node_format_fits ::
  "btree_consts \<Rightarrow> btree \<Rightarrow> bkey_format \<Rightarrow> error + bool" where
  "bch2_btree_node_format_fits c b new_f =
     (case btree_node_u64s_with_format c b new_f of
        Inl e \<Rightarrow> Inl e
      | Inr u64s \<Rightarrow> Inr (vstruct_bytes_btree_node c u64s < btree_bytes c))"

subsection \<open>Functions of other files\<close>

text \<open>
  Functions that the code below calls on a node or a position and that are defined
  outside this file. They are parameters of the model.
  \<^item> \<open>bkey_successor\<close>: \<^verbatim>\<open>bkey_successor\<close>.
  \<^item> \<open>node_iter_keys b\<close>: the keys of \<open>b\<close>, whiteouts included, in the order in which
    the node iterator (\<^verbatim>\<open>bch2_btree_node_iter_init_from_start\<close>,
    \<^verbatim>\<open>bch2_btree_node_iter_advance\<close>) walks them: the keys of all bsets in key order.
  \<^item> \<open>bset_insert_key b k\<close>: the node \<open>b\<close> after \<^verbatim>\<open>bch2_insert_fixup_btree_ptr\<close> has
    moved the node iterator to the position of \<open>k\<close> and \<^verbatim>\<open>bch2_btree_bset_insert_key\<close>
    has put \<open>k\<close> into the node.
  \<^item> \<open>node_hash_insert b\<close>: what \<^verbatim>\<open>bch2_btree_node_hash_insert\<close> returns for \<open>b\<close>.
  \<^item> \<open>node_is_extents lvl bid\<close>: \<^verbatim>\<open>btree_node_is_extents(b)\<close> for a node at level \<open>lvl\<close>
    of the btree \<open>bid\<close>.
  \<^item> \<open>new_extent_overwrite\<close>: the bit \<^verbatim>\<open>BCH_FEATURE_new_extent_overwrite\<close> of
    \<^verbatim>\<open>c->sb.features\<close>.
\<close>

record node_env =
  bkey_successor :: "bpos \<Rightarrow> bpos"
  node_iter_keys :: "btree \<Rightarrow> bkey list"
  bset_insert_key :: "btree \<Rightarrow> bkey \<Rightarrow> btree"
  node_hash_insert :: "btree \<Rightarrow> int"
  node_is_extents :: "nat \<Rightarrow> nat \<Rightarrow> bool"
  new_extent_overwrite :: bool

subsection \<open>Checking that the children of an interior node span its range\<close>

text \<open>
  The loop of \<^verbatim>\<open>btree_node_interior_verify\<close> over the keys that the node iterator
  still has to yield: \<^verbatim>\<open>peek\<close> skips whiteouts and returns no key at the end (the source
  then reads \<^verbatim>\<open>k.k->type\<close> through a null pointer), and \<^verbatim>\<open>bch2_btree_node_iter_end\<close>
  holds when no key of any type is left.
\<close>

function interior_verify_walk ::
  "(bpos \<Rightarrow> bpos) \<Rightarrow> btree \<Rightarrow> bpos \<Rightarrow> bkey list \<Rightarrow> error + unit" where
  "interior_verify_walk succ b next_node ks =
     (case dropWhile bkey_whiteout ks of
        [] \<Rightarrow> Inl NULL_deref
      | k # rest \<Rightarrow>
          if k_type k \<noteq> KEY_TYPE_btree_ptr_v2 then Inr ()
          else if next_node \<noteq> v_min_key k then Inl BUG
          else if rest = [] then (if k_p k \<noteq> k_p (key b) then Inl BUG else Inr ())
          else interior_verify_walk succ b (succ (k_p k)) rest)"
  by pat_completeness auto
termination
proof (relation "measure (\<lambda>(succ, b, next_node, ks). length ks)")
  show "wf (measure (\<lambda>(succ, b, next_node, ks). length ks))"
    by simp
next
  fix succ :: "bpos \<Rightarrow> bpos" and b :: btree and next_node :: bpos and ks x21 x22
  assume "dropWhile bkey_whiteout ks = x21 # x22"
  then have "length (x21 # x22) \<le> length ks"
    by (metis length_dropWhile_le)
  then show "((succ, b, succ (k_p x21), x22), (succ, b, next_node, ks))
      \<in> measure (\<lambda>(succ, b, next_node, ks). length ks)"
    by simp
qed

text \<open>
  \<^verbatim>\<open>btree_node_interior_verify\<close>; \<open>replay_done\<close> is the flag
  \<^verbatim>\<open>BCH_FS_BTREE_INTERIOR_REPLAY_DONE\<close>.
\<close>

definition btree_node_interior_verify ::
  "btree_consts \<Rightarrow> node_env \<Rightarrow> bool \<Rightarrow> btree \<Rightarrow> error + unit" where
  "btree_node_interior_verify c x replay_done b =
     (if \<not> CONFIG_BCACHEFS_DEBUG c then Inr ()
      else if level b = 0 then Inl BUG
      else if \<not> replay_done then Inr ()
      else interior_verify_walk (bkey_successor x) b (data_min_key b) (node_iter_keys x b))"

subsection \<open>Building nodes\<close>

definition btree_set_min :: "btree \<Rightarrow> bpos \<Rightarrow> btree" where
  "btree_set_min b pos =
     (let b1 = (if k_type (key b) = KEY_TYPE_btree_ptr_v2
                then b\<lparr>key := (key b)\<lparr>v_min_key := pos\<rparr>\<rparr> else b)
      in b1\<lparr>data_min_key := pos\<rparr>)"

definition btree_set_max :: "btree \<Rightarrow> bpos \<Rightarrow> btree" where
  "btree_set_max b pos = b\<lparr>key := (key b)\<lparr>k_p := pos\<rparr>, data_max_key := pos\<rparr>"

text \<open>\<^verbatim>\<open>le16_to_cpu(i->u64s)\<close> of a bset: the u64s its keys take.\<close>

definition set_u64s :: "bkey list \<Rightarrow> nat" where
  "set_u64s ks = sum_list (map k_u64s ks)"

definition btree_bset_first :: "btree \<Rightarrow> bkey list" where
  "btree_bset_first b = (case sets b of [] \<Rightarrow> [] | i # _ \<Rightarrow> i)"

definition set_btree_bset_first :: "btree \<Rightarrow> bkey list \<Rightarrow> btree" where
  "set_btree_bset_first b ks = b\<lparr>sets := (case sets b of [] \<Rightarrow> [ks] | _ # r \<Rightarrow> ks # r)\<rparr>"

text \<open>
  Modelled from the spec: \<^verbatim>\<open>btree_node_reset_sib_u64s\<close>, declared outside this file.
  The spec: the constructors reset sibling-size hints (\<open>U16_MAX\<close> = unknown).
\<close>

definition btree_node_reset_sib_u64s :: "btree \<Rightarrow> btree" where
  "btree_node_reset_sib_u64s b = b\<lparr>sib_u64s := (U16_MAX, U16_MAX)\<rparr>"

text \<open>
  Modelled from the spec: \<^verbatim>\<open>bch2_btree_sort_into\<close>, defined outside this file. The
  spec: it re-sorts the live keys of \<open>src\<close> into the new node, dropping whiteouts. The
  live keys in key order are the keys the node iterator yields for \<open>src\<close>, without the
  whiteouts. They go behind the keys the first bset of \<open>dst\<close> already holds, and the key
  counts of \<open>dst\<close> grow by what was copied. Repacking a key under the format of \<open>dst\<close>
  (which can change its width, not its type, position or value) is not modelled.
\<close>

definition bch2_btree_sort_into :: "node_env \<Rightarrow> btree \<Rightarrow> btree \<Rightarrow> btree" where
  "bch2_btree_sort_into x dst src =
     (let live = filter (\<lambda>k. \<not> bkey_whiteout k) (node_iter_keys x src);
          n = nr dst;
          u = word_of_nat (set_u64s live)
      in (set_btree_bset_first dst (btree_bset_first dst @ live))
           \<lparr>nr := n\<lparr>live_u64s := live_u64s n + u,
                     bset_u64s := (case bset_u64s n of [] \<Rightarrow> [u] | x # r \<Rightarrow> (x + u) # r),
                     packed_keys := packed_keys n +
                        word_of_nat (length (filter k_packed live)),
                     unpacked_keys := unpacked_keys n +
                        word_of_nat (length (filter (\<lambda>k. \<not> k_packed k) live))\<rparr>\<rparr>)"

text \<open>
  The assignments of \<^verbatim>\<open>bch2_btree_node_alloc\<close> to the preallocated node \<open>b\<close> it has
  popped (the function with its checks follows with the update machinery): the flags,
  \<^verbatim>\<open>bch2_bset_init_first\<close> (one empty bset), level and btree id, the key counts and
  \<^verbatim>\<open>b->data->flags = 0\<close>, which clears the sequence number of the node. With the
  flags of \<^verbatim>\<open>b->data\<close> cleared, \<^verbatim>\<open>BTREE_NODE_NEW_EXTENT_OVERWRITE(b->data)\<close> is the
  feature bit of the superblock. The other fields of the \<^verbatim>\<open>btree_ptr_v2\<close> value than
  \<open>min_key\<close>, the magic number and the auxiliary search trees are not represented.
\<close>

definition bch2_btree_node_alloc_node :: "node_env \<Rightarrow> nat \<Rightarrow> nat \<Rightarrow> btree \<Rightarrow> btree" where
  "bch2_btree_node_alloc_node x bid lvl b =
     b\<lparr>flags := flags b \<union> {BTREE_NODE_accessed, BTREE_NODE_dirty, BTREE_NODE_need_write} \<union>
                (if node_is_extents x lvl bid \<and> \<not> new_extent_overwrite x
                 then {BTREE_NODE_old_extent_overwrite, BTREE_NODE_need_rewrite} else {}),
       sets := [[]], level := lvl, btree_id := bid,
       nr := \<lparr>live_u64s = 0, bset_u64s = [0, 0, 0], packed_keys = 0, unpacked_keys = 0\<rparr>,
       data_seq := 0\<rparr>"

text \<open>
  \<^verbatim>\<open>__bch2_btree_node_alloc_replacement\<close> behind its call of
  \<^verbatim>\<open>bch2_btree_node_alloc\<close>: \<open>n\<close> is the node that call returned.
\<close>

definition btree_node_alloc_replacement_format ::
  "node_env \<Rightarrow> btree \<Rightarrow> btree \<Rightarrow> bkey_format \<Rightarrow> btree" where
  "btree_node_alloc_replacement_format x n b fmt =
     (let n1 = n\<lparr>data_seq := data_seq b + 1\<rparr>;
          n2 = btree_set_min n1 (data_min_key b);
          n3 = btree_set_max n2 (data_max_key b);
          n4 = n3\<lparr>data_format := fmt, format := fmt\<rparr>;
          n5 = bch2_btree_sort_into x n4 b;
          n6 = btree_node_reset_sib_u64s n5
      in n6\<lparr>key := (key n6)\<lparr>k_p := k_p (key b)\<rparr>\<rparr>)"

subsection \<open>Splitting a node\<close>

text \<open>
  The walk of \<^verbatim>\<open>__btree_split_node\<close> over the first bset of \<open>n1\<close>. \<open>off\<close> is
  \<^verbatim>\<open>k->_data - set1->_data\<close>, \<open>front\<close> are the keys in front of \<open>k\<close> (so \<^verbatim>\<open>prev\<close> is
  the last of them), \<open>rest\<close> the keys behind \<open>k\<close>. The result is the state at the
  \<^verbatim>\<open>break\<close>.
\<close>

fun split_walk ::
  "nat \<Rightarrow> nat \<Rightarrow> bkey list \<Rightarrow> bkey \<Rightarrow> bkey list \<Rightarrow> nat \<Rightarrow> nat \<Rightarrow>
   bkey list \<times> bkey \<times> bkey list \<times> nat \<times> nat" where
  "split_walk thr off front k [] nr_packed nr_unpacked =
     (front, k, [], nr_packed, nr_unpacked)"
| "split_walk thr off front k (n # rest) nr_packed nr_unpacked =
     (if off \<ge> thr then (front, k, n # rest, nr_packed, nr_unpacked)
      else split_walk thr (off + k_u64s k) (front @ [k]) n rest
             (if k_packed k then nr_packed + 1 else nr_packed)
             (if k_packed k then nr_unpacked else nr_unpacked + 1))"

text \<open>
  \<^verbatim>\<open>__btree_split_node\<close> behind its calls of \<^verbatim>\<open>bch2_btree_node_alloc\<close> and
  \<^verbatim>\<open>bch2_btree_update_add_new_node\<close> (the function with these calls follows with the
  update machinery): \<open>n2\<close> is the node the first call returned, \<open>n1\<close> and \<open>n2\<close> are two
  nodes. On an empty bset the source reads the key behind the end of the bset and leaves
  the loop with \<^verbatim>\<open>prev\<close> unset, where \<^verbatim>\<open>BUG_ON(!prev)\<close> stops it. The u64s of a bset
  are computed in \<open>nat\<close>: a node holds at most \<open>btree_max_u64s\<close> u64s, which fits the 16
  bits of \<^verbatim>\<open>u64s\<close>.
\<close>

definition split_node_keys ::
  "btree_consts \<Rightarrow> node_env \<Rightarrow> bool \<Rightarrow> btree \<Rightarrow> btree \<Rightarrow> error + (btree \<times> btree)" where
  "split_node_keys c x replay_done n1 n2 =
     (let n2a = n2\<lparr>data_max_key := data_max_key n1, data_format := format n1,
                   data_seq := data_seq n1, key := (key n2)\<lparr>k_p := k_p (key n1)\<rparr>,
                   format := format n1\<rparr>;
          set1 = btree_bset_first n1
      in case set1 of
           [] \<Rightarrow> Inl BUG
         | k0 # ks \<Rightarrow>
            (case split_walk ((set_u64s set1 * 3) div 5) 0 [] k0 ks 0 0 of
               (front, k, rest, nr_packed, nr_unpacked) \<Rightarrow>
                 if front = [] then Inl BUG
                 else
                   let n1a = btree_set_max n1 (k_p (last front));
                       n2b = btree_set_min n2a (bkey_successor x (k_p (key n1a)));
                       set2_u64s = set_u64s (k # rest);
                       set1_u64s = set_u64s set1 - set2_u64s;
                       n2c = n2b\<lparr>nr := (nr n2b)\<lparr>
                               live_u64s := word_of_nat set2_u64s,
                               bset_u64s := (bset_u64s (nr n2b))[0 := word_of_nat set2_u64s],
                               packed_keys := packed_keys (nr n1) - word_of_nat nr_packed,
                               unpacked_keys := unpacked_keys (nr n1) - word_of_nat nr_unpacked\<rparr>\<rparr>;
                       n1b = n1a\<lparr>nr := (nr n1a)\<lparr>
                               live_u64s := word_of_nat set1_u64s,
                               bset_u64s := (bset_u64s (nr n1a))[0 := word_of_nat set1_u64s],
                               packed_keys := word_of_nat nr_packed,
                               unpacked_keys := word_of_nat nr_unpacked\<rparr>\<rparr>
                   in if set1_u64s = 0 \<or> set2_u64s = 0 then Inl BUG
                      else
                        let n1c = btree_node_reset_sib_u64s (set_btree_bset_first n1b front);
                            n2d = btree_node_reset_sib_u64s (set_btree_bset_first n2c (k # rest))
                        in if level n1c \<noteq> 0 then
                             (case btree_node_interior_verify c x replay_done n1c of
                                Inl e \<Rightarrow> Inl e
                              | Inr _ \<Rightarrow>
                                 (case btree_node_interior_verify c x replay_done n2d of
                                    Inl e \<Rightarrow> Inl e
                                  | Inr _ \<Rightarrow> Inr (n1c, n2d)))
                           else Inr (n1c, n2d)))"

text \<open>
  The loop of \<^verbatim>\<open>btree_split_insert_keys\<close> that moves the keys of the first bset down
  over the deleted ones: \<open>dst\<close> are the keys kept so far, the last argument the keys from
  \<^verbatim>\<open>src\<close> on.
\<close>

fun compact_deleted :: "bkey list \<Rightarrow> bkey list \<Rightarrow> bkey list" where
  "compact_deleted dst [] = dst"
| "compact_deleted dst (src # rest) =
     compact_deleted (if \<not> bkey_deleted src then dst @ [src] else dst) rest"

subsection \<open>The pivot of a split in the words of the spec\<close>

text \<open>
  The spec's split walks the bset with a cursor, stops at the first key past
  \<open>\<lfloor>3 * u64s / 5\<rfloor>\<close> and uses that key as the pivot. \<open>spec_pivot\<close> is that key: the first
  key of the bset whose u64 offset has reached the bound.
\<close>

fun first_key_past :: "nat \<Rightarrow> nat \<Rightarrow> bkey list \<Rightarrow> bkey option" where
  "first_key_past thr off [] = None"
| "first_key_past thr off (k # ks) =
     (if off \<ge> thr then Some k else first_key_past thr (off + k_u64s k) ks)"

definition spec_pivot :: "bkey list \<Rightarrow> bkey option" where
  "spec_pivot ks = first_key_past ((set_u64s ks * 3) div 5) 0 ks"

subsection \<open>The size check of the foreground merge\<close>

text \<open>
  \<^verbatim>\<open>__bch2_foreground_maybe_merge\<close>, from its entry to the point where it either leaves
  through \<^verbatim>\<open>out\<close>/\<^verbatim>\<open>err\<close> or goes on to take the gc lock and build the merged node.
  What the iterator layer returns is an argument: whether \<open>b\<close> has a parent, and the
  result of \<^verbatim>\<open>bch2_btree_node_get_sibling\<close> (an error, no sibling, or the sibling \<open>m\<close>).
  The union format \<open>new_f\<close> is computed by the bkey-format functions, which are outside
  this file; it is an argument too.
\<close>

datatype btree_node_sibling = btree_prev_sib | btree_next_sib

datatype sibling_lookup = Sib_err int | Sib_none | Sib btree

datatype merge_check = Merge_out | Merge_err int | Merge_proceed

fun get_sib_u64s :: "btree \<Rightarrow> btree_node_sibling \<Rightarrow> u16" where
  "get_sib_u64s b btree_prev_sib = fst (sib_u64s b)"
| "get_sib_u64s b btree_next_sib = snd (sib_u64s b)"

fun set_sib_u64s :: "btree \<Rightarrow> btree_node_sibling \<Rightarrow> u16 \<Rightarrow> btree" where
  "set_sib_u64s b btree_prev_sib v = b\<lparr>sib_u64s := (v, snd (sib_u64s b))\<rparr>"
| "set_sib_u64s b btree_next_sib v = b\<lparr>sib_u64s := (fst (sib_u64s b), v)\<rparr>"

definition merge_hysteresis :: "btree_consts \<Rightarrow> nat \<Rightarrow> nat" where
  "merge_hysteresis c u =
     (let u1 = (if u > MERGE_HYSTERESIS c
                then (u - MERGE_HYSTERESIS c) div 2 + MERGE_HYSTERESIS c
                else u)
      in min u1 (btree_max_u64s c))"

definition foreground_maybe_merge_check ::
  "btree_consts \<Rightarrow> bool \<Rightarrow> btree \<Rightarrow> btree_node_sibling \<Rightarrow> sibling_lookup \<Rightarrow>
   bkey_format \<Rightarrow> error + (btree \<times> merge_check)" where
  "foreground_maybe_merge_check c has_parent b sib lookup new_f =
     (if \<not> has_parent then Inr (b, Merge_out)
      else if unat (get_sib_u64s b sib) > MERGE_THRESHOLD c then Inr (b, Merge_out)
      else case lookup of
        Sib_err e \<Rightarrow> Inr (b, Merge_err e)
      | Sib_none \<Rightarrow> Inr (set_sib_u64s b sib U16_MAX, Merge_out)
      | Sib m \<Rightarrow>
          (case btree_node_u64s_with_format c b new_f of
             Inl e \<Rightarrow> Inl e
           | Inr ub \<Rightarrow>
              (case btree_node_u64s_with_format c m new_f of
                 Inl e \<Rightarrow> Inl e
               | Inr um \<Rightarrow>
                  (let b' = set_sib_u64s b sib (word_of_nat (merge_hysteresis c (ub + um)))
                   in if unat (get_sib_u64s b' sib) > MERGE_THRESHOLD c
                      then Inr (b', Merge_out)
                      else Inr (b', Merge_proceed)))))"

section \<open>The asynchronous interior update machinery\<close>

subsection \<open>State\<close>

datatype btree_interior_update_mode =
  BTREE_INTERIOR_NO_UPDATE | BTREE_INTERIOR_UPDATING_NODE |
  BTREE_INTERIOR_UPDATING_ROOT | BTREE_INTERIOR_UPDATING_AS

datatype jset_entry_type = BCH_JSET_ENTRY_btree_keys | BCH_JSET_ENTRY_btree_root

text \<open>An entry of \<^verbatim>\<open>as->journal_entries\<close>: type, btree id, level and the key.\<close>

type_synonym jset_entry = "jset_entry_type \<times> nat \<times> nat \<times> bkey"

text \<open>
  \<^verbatim>\<open>struct btree_update\<close>. \<open>as_b\<close> is \<^verbatim>\<open>as->b\<close>; \<open>journal\<close> the pin \<^verbatim>\<open>as->journal\<close>;
  \<open>journal_preres\<close> the u64s held in \<^verbatim>\<open>as->journal_preres\<close>; \<open>disk_res\<close> the sectors held
  in \<^verbatim>\<open>as->disk_res\<close>; \<open>cl_remaining\<close> the references held on the closure \<^verbatim>\<open>as->cl\<close>
  beyond the one of the thread that runs the update; \<open>prealloc_nodes\<close> and \<open>new_nodes\<close>
  the arrays of that name, first entry first.
\<close>

record btree_update =
  mode :: btree_interior_update_mode
  nodes_written :: bool
  as_btree_id :: nat
  as_b :: "node_ref option"
  journal :: journal_entry_pin
  journal_preres :: nat
  disk_res :: nat
  cl_remaining :: int
  prealloc_nodes :: "node_ref list"
  new_nodes :: "node_ref list"
  old_keys :: "bkey list"
  new_keys :: "bkey list"
  parent_keys :: "bkey list"
  journal_entries :: "jset_entry list"
  open_buckets :: "nat list"
  must_rewrite :: bool

text \<open>An entry of \<^verbatim>\<open>c->btree_reserve_cache\<close>: the open buckets and the key.\<close>

type_synonym btree_alloc = "nat list \<times> bkey"

datatype journal_res_flag = JOURNAL_RES_GET_NONBLOCK | JOURNAL_RES_GET_RECLAIM

datatype btree_insert_flag =
  BTREE_INSERT_NOFAIL | BTREE_INSERT_NOUNLOCK | BTREE_INSERT_USE_RESERVE |
  BTREE_INSERT_USE_ALLOC_RESERVE | BTREE_INSERT_NOWAIT | BTREE_INSERT_GC_LOCK_HELD |
  BTREE_INSERT_JOURNAL_RESERVED | BTREE_INSERT_JOURNAL_RECLAIM | BTREE_INSERT_NOCHECK_RW

text \<open>
  Calls into the journal and the transaction that \<^verbatim>\<open>bch2_btree_update_start\<close> makes, in
  the order it makes them.
\<close>

datatype ext_call =
  Journal_preres_get nat "journal_res_flag set" | Trans_unlock | Trans_relock

text \<open>
  \<^verbatim>\<open>struct bch_fs\<close>, as far as this file reads and writes it. Nodes and updates live
  in two stores, by address. \<open>updates\<close> holds the elements of
  \<^verbatim>\<open>c->btree_interior_update_pool\<close> that are allocated. \<open>btree_roots\<close> maps a btree id to
  \<^verbatim>\<open>btree_node_root(c, b)\<close>. \<open>journal_error\<close> is what \<^verbatim>\<open>bch2_journal_error\<close> returns.
  \<open>journal_prereserved\<close> and \<open>disk_reserved\<close> count what the journal and the disk
  accounting have handed out; \<open>open_buckets_freed\<close> lists the open buckets given back to
  the allocator. \<open>hold_btree_writes\<close> is the flag \<^verbatim>\<open>BCH_FS_HOLD_BTREE_WRITES\<close>.
\<close>

record bch_fs =
  nodes :: "node_ref \<rightharpoonup> btree"
  updates :: "update_ref \<rightharpoonup> btree_update"
  btree_roots :: "nat \<rightharpoonup> node_ref"
  btree_reserve_cache :: "btree_alloc list"
  btree_interior_update_list :: "update_ref list"
  btree_interior_updates_unwritten :: "update_ref list"
  journal_error :: int
  journal_prereserved :: nat
  disk_reserved :: nat
  open_buckets_freed :: "nat list"
  hold_btree_writes :: bool
  calls :: "ext_call list"

text \<open>
  Constants of headers outside this file: the sizes of the arrays of a
  \<^verbatim>\<open>btree_update\<close> (\<^verbatim>\<open>ARRAY_SIZE(as->new_nodes)\<close>, of the key lists in u64s, of
  \<^verbatim>\<open>as->journal_entries\<close> in u64s), \<^verbatim>\<open>BTREE_RESERVE_MAX\<close>, \<^verbatim>\<open>BTREE_NODE_RESERVE\<close>,
  \<^verbatim>\<open>ARRAY_SIZE(c->btree_reserve_cache)\<close>, \<^verbatim>\<open>BTREE_UPDATE_JOURNAL_RES\<close>,
  \<^verbatim>\<open>BTREE_MAX_DEPTH\<close>, the u64s of the header of a journal entry (\<^verbatim>\<open>jset_u64s(u)\<close> is
  \<open>u\<close> plus that), the errno values, and the options \<^verbatim>\<open>c->opts.btree_node_size\<close>
  and \<^verbatim>\<open>c->opts.metadata_replicas\<close>.
\<close>

record update_consts =
  NEW_NODES_MAX :: nat
  KEYLIST_U64s_MAX :: nat
  JOURNAL_ENTRIES_U64s_MAX :: nat
  BTREE_RESERVE_MAX :: nat
  BTREE_NODE_RESERVE :: nat
  RESERVE_CACHE_SIZE :: nat
  BTREE_UPDATE_JOURNAL_RES :: nat
  BTREE_MAX_DEPTH :: nat
  JSET_ENTRY_U64s :: nat
  opts_btree_node_size :: nat
  opts_metadata_replicas :: nat

definition EAGAIN :: int where "EAGAIN = 11"
definition EINTR :: int where "EINTR = 4"

definition node_upd :: "bch_fs \<Rightarrow> node_ref \<Rightarrow> (btree \<Rightarrow> btree) \<Rightarrow> bch_fs" where
  "node_upd s r f = s\<lparr>nodes := (nodes s)(r := map_option f (nodes s r))\<rparr>"

definition update_upd :: "bch_fs \<Rightarrow> update_ref \<Rightarrow> (btree_update \<Rightarrow> btree_update) \<Rightarrow> bch_fs" where
  "update_upd s r f = s\<lparr>updates := (updates s)(r := map_option f (updates s r))\<rparr>"

subsection \<open>Journal pins and closures\<close>

text \<open>
  Modelled from the spec: \<^verbatim>\<open>bch2_journal_pin_copy\<close>, defined outside this file. The
  spec: the pin of the source is copied onto the destination with oldest-wins semantics.
  An inactive source pin changes nothing.
\<close>

definition bch2_journal_pin_copy :: "journal_entry_pin \<Rightarrow> journal_entry_pin \<Rightarrow> journal_entry_pin" where
  "bch2_journal_pin_copy dst src =
     (case src of
        None \<Rightarrow> dst
      | Some s \<Rightarrow> (case dst of None \<Rightarrow> Some s | Some d \<Rightarrow> if s < d then Some s else Some d))"

text \<open>
  Modelled from the spec: \<^verbatim>\<open>bch2_journal_pin_drop\<close>, defined outside this file: the
  pin is dropped, it no longer holds a sequence number.
\<close>

definition bch2_journal_pin_drop :: "journal_entry_pin \<Rightarrow> journal_entry_pin" where
  "bch2_journal_pin_drop pin = None"

text \<open>
  Modelled from the spec: \<^verbatim>\<open>closure_get\<close> and \<^verbatim>\<open>closure_put\<close>, defined outside this
  file, on the completion counter of an update: one reference more, one less.
\<close>

definition closure_get :: "btree_update \<Rightarrow> btree_update" where
  "closure_get as = as\<lparr>cl_remaining := cl_remaining as + 1\<rparr>"

definition closure_put :: "btree_update \<Rightarrow> btree_update" where
  "closure_put as = as\<lparr>cl_remaining := cl_remaining as - 1\<rparr>"

definition keylist_u64s :: "bkey list \<Rightarrow> nat" where
  "keylist_u64s l = sum_list (map k_u64s l)"

text \<open>\<^verbatim>\<open>as->journal_u64s\<close>: the u64s that the journal entries of the update take.\<close>

definition journal_u64s :: "update_consts \<Rightarrow> btree_update \<Rightarrow> nat" where
  "journal_u64s uc as =
     sum_list (map (\<lambda>(t, bid, lvl, k). k_u64s k + JSET_ENTRY_U64s uc) (journal_entries as))"

definition btree_update_will_delete_key ::
  "update_consts \<Rightarrow> btree_update \<Rightarrow> bkey \<Rightarrow> error + btree_update" where
  "btree_update_will_delete_key uc as k =
     (if keylist_u64s (old_keys as) + k_u64s k > KEYLIST_U64s_MAX uc then Inl BUG
      else Inr (as\<lparr>old_keys := old_keys as @ [k]\<rparr>))"

definition btree_update_will_add_key ::
  "update_consts \<Rightarrow> btree_update \<Rightarrow> bkey \<Rightarrow> error + btree_update" where
  "btree_update_will_add_key uc as k =
     (if keylist_u64s (new_keys as) + k_u64s k > KEYLIST_U64s_MAX uc then Inl BUG
      else Inr (as\<lparr>new_keys := new_keys as @ [k]\<rparr>))"

subsection \<open>New nodes and the nodes an update frees\<close>

text \<open>
  \<^verbatim>\<open>bch2_btree_update_add_new_node\<close>. \<open>as\<close> is the address of the update; a node or an
  update that is not in its store is a null pointer.
\<close>

definition bch2_btree_update_add_new_node ::
  "update_consts \<Rightarrow> bch_fs \<Rightarrow> update_ref \<Rightarrow> node_ref \<Rightarrow> error + bch_fs" where
  "bch2_btree_update_add_new_node uc s as b =
     (case (updates s as, nodes s b) of
        (Some u, Some n) \<Rightarrow>
          let u1 = closure_get u in
          if length (new_nodes u1) \<ge> NEW_NODES_MAX uc then Inl BUG
          else if will_make_reachable n \<noteq> 0 then Inl BUG
          else
            let u2 = u1\<lparr>new_nodes := new_nodes u1 @ [b]\<rparr>;
                n1 = n\<lparr>will_make_reachable := 1 OR as\<rparr>
            in (case btree_update_will_add_key uc u2 (key n1) of
                  Inl e \<Rightarrow> Inl e
                | Inr u3 \<Rightarrow> Inr (s\<lparr>nodes := (nodes s)(b \<mapsto> n1),
                                    updates := (updates s)(as \<mapsto> u3)\<rparr>))
      | _ \<Rightarrow> Inl NULL_deref)"

text \<open>
  \<^verbatim>\<open>array_remove_item(as->new_nodes, as->nr_new_nodes, i)\<close> for the first index \<open>i\<close>
  with \<^verbatim>\<open>as->new_nodes[i] == b\<close>.
\<close>

fun remove_first :: "node_ref \<Rightarrow> node_ref list \<Rightarrow> node_ref list" where
  "remove_first b [] = []"
| "remove_first b (x # xs) = (if x = b then xs else x # remove_first b xs)"

text \<open>
  \<^verbatim>\<open>btree_update_drop_new_node\<close>. The \<^verbatim>\<open>xchg\<close> reads the word and stores 0 in one step.
\<close>

definition btree_update_drop_new_node :: "bch_fs \<Rightarrow> node_ref \<Rightarrow> error + bch_fs" where
  "btree_update_drop_new_node s b =
     (case nodes s b of
        None \<Rightarrow> Inl NULL_deref
      | Some n \<Rightarrow>
          let v = will_make_reachable n;
              s1 = s\<lparr>nodes := (nodes s)(b \<mapsto> n\<lparr>will_make_reachable := 0\<rparr>)\<rparr>;
              as = v AND NOT 1
          in if as = 0 then Inr s1
             else (case updates s1 as of
                     None \<Rightarrow> Inl NULL_deref
                   | Some u \<Rightarrow>
                       if b \<notin> set (new_nodes u) then Inl BUG
                       else
                         (let u1 = u\<lparr>new_nodes := remove_first b (new_nodes u)\<rparr>;
                              u2 = (if v AND 1 \<noteq> 0 then closure_put u1 else u1)
                          in Inr (s1\<lparr>updates := (updates s1)(as \<mapsto> u2)\<rparr>))))"

text \<open>
  Modelled from the spec: \<^verbatim>\<open>bch2_btree_complete_write\<close>, defined outside this file,
  as far as it touches \<^verbatim>\<open>will_make_reachable\<close>. The spec: the node's first
  write-completion clears the ref-held bit of the tagged back-pointer atomically
  (compare-and-swap), and clearing also decrements the update's completion counter. The
  pointer itself stays (\<^verbatim>\<open>btree_update_nodes_written\<close> requires
  \<^verbatim>\<open>b->will_make_reachable == (unsigned long) as\<close>).
\<close>

definition bch2_btree_complete_write :: "bch_fs \<Rightarrow> node_ref \<Rightarrow> error + bch_fs" where
  "bch2_btree_complete_write s b =
     (case nodes s b of
        None \<Rightarrow> Inl NULL_deref
      | Some n \<Rightarrow>
          (let old = will_make_reachable n in
           if old AND 1 = 0 then Inr s
           else
             (let new = old AND NOT 1;
                  s1 = s\<lparr>nodes := (nodes s)(b \<mapsto> n\<lparr>will_make_reachable := new\<rparr>)\<rparr>
              in (case updates s1 new of
                    None \<Rightarrow> Inl NULL_deref
                  | Some u \<Rightarrow>
                      Inr (s1\<lparr>updates := (updates s1)(new \<mapsto> closure_put u)\<rparr>)))))"

text \<open>
  \<^verbatim>\<open>btree_update_reparent\<close>: \<open>child\<close> is redirected to \<open>as\<close>.
\<close>

definition btree_update_reparent :: "bch_fs \<Rightarrow> update_ref \<Rightarrow> update_ref \<Rightarrow> error + bch_fs" where
  "btree_update_reparent s as child =
     (case updates s child of
        None \<Rightarrow> Inl NULL_deref
      | Some ch \<Rightarrow>
          (let ch1 = ch\<lparr>as_b := None, mode := BTREE_INTERIOR_UPDATING_AS\<rparr>;
               s1 = s\<lparr>updates := (updates s)(child \<mapsto> ch1)\<rparr>
           in (case updates s1 as of
                 None \<Rightarrow> Inl NULL_deref
               | Some u \<Rightarrow>
                  (let s2 = s1\<lparr>updates := (updates s1)(as \<mapsto>
                              u\<lparr>journal := bch2_journal_pin_copy (journal u) (journal ch1)\<rparr>)\<rparr>
                   in (case updates s2 child of
                         None \<Rightarrow> Inl NULL_deref
                       | Some ch2 \<Rightarrow>
                           Inr (s2\<lparr>updates := (updates s2)(child \<mapsto>
                                  ch2\<lparr>journal := bch2_journal_pin_drop (journal ch2)\<rparr>)\<rparr>))))))"

text \<open>
  The loop of \<^verbatim>\<open>bch2_btree_interior_update_will_free_node\<close> over \<^verbatim>\<open>b->write_blocked\<close>:
  each entry is unlinked (\<^verbatim>\<open>list_del_init\<close>) and reparented. The list argument holds the
  entries still to visit.
\<close>

fun reparent_write_blocked ::
  "bch_fs \<Rightarrow> update_ref \<Rightarrow> node_ref \<Rightarrow> update_ref list \<Rightarrow> error + bch_fs" where
  "reparent_write_blocked s as b [] = Inr s"
| "reparent_write_blocked s as b (p # ps) =
     (let s1 = node_upd s b (\<lambda>n. n\<lparr>write_blocked := remove1 p (write_blocked n)\<rparr>)
      in case btree_update_reparent s1 as p of
           Inl e \<Rightarrow> Inl e
         | Inr s2 \<Rightarrow> reparent_write_blocked s2 as b ps)"

text \<open>
  The transfer of the journal pin of one write of \<open>b\<close> (\<open>sel = fst\<close> for
  \<^verbatim>\<open>btree_current_write(b)\<close>, \<open>snd\<close> for \<^verbatim>\<open>btree_prev_write(b)\<close>) to the update.
\<close>

definition transfer_write_pin ::
  "bch_fs \<Rightarrow> update_ref \<Rightarrow> node_ref \<Rightarrow> bool \<Rightarrow> error + bch_fs" where
  "transfer_write_pin s as b current =
     (case (updates s as, nodes s b) of
        (Some u, Some n) \<Rightarrow>
          let w = (if current then fst (writes n) else snd (writes n));
              u1 = u\<lparr>journal := bch2_journal_pin_copy (journal u) w\<rparr>;
              n1 = n\<lparr>writes := (if current then (bch2_journal_pin_drop w, snd (writes n))
                                 else (fst (writes n), bch2_journal_pin_drop w))\<rparr>
          in Inr (s\<lparr>updates := (updates s)(as \<mapsto> u1), nodes := (nodes s)(b \<mapsto> n1)\<rparr>)
      | _ \<Rightarrow> Inl NULL_deref)"

definition bch2_btree_interior_update_will_free_node ::
  "update_consts \<Rightarrow> bch_fs \<Rightarrow> update_ref \<Rightarrow> node_ref \<Rightarrow> error + bch_fs" where
  "bch2_btree_interior_update_will_free_node uc s as b =
     (case nodes s b of
        None \<Rightarrow> Inl NULL_deref
      | Some n0 \<Rightarrow>
          (let s0 = node_upd s b (\<lambda>n. n\<lparr>flags := flags n \<union> {BTREE_NODE_dying}\<rparr>) in
          if BTREE_NODE_fake \<in> flags n0 then Inr s0
          else
            (case reparent_write_blocked s0 as b (write_blocked n0) of
              Inl e \<Rightarrow> Inl e
            | Inr s1 \<Rightarrow>
               (let s2 = node_upd s1 b
                          (\<lambda>n. n\<lparr>flags := flags n - {BTREE_NODE_dirty, BTREE_NODE_need_write}\<rparr>)
               in (case transfer_write_pin s2 as b True of
                    Inl e \<Rightarrow> Inl e
                  | Inr s3 \<Rightarrow>
                     (case transfer_write_pin s3 as b False of
                        Inl e \<Rightarrow> Inl e
                      | Inr s4 \<Rightarrow>
                         (case btree_update_drop_new_node s4 b of
                            Inl e \<Rightarrow> Inl e
                          | Inr s5 \<Rightarrow>
                             (case (updates s5 as, nodes s5 b) of
                                (Some u, Some n) \<Rightarrow>
                                  (case btree_update_will_delete_key uc u (key n) of
                                     Inl e \<Rightarrow> Inl e
                                   | Inr u1 \<Rightarrow> Inr (s5\<lparr>updates := (updates s5)(as \<mapsto> u1)\<rparr>))
                              | _ \<Rightarrow> Inl NULL_deref))))))))"

subsection \<open>Allocating, replacing and splitting nodes within an update\<close>

text \<open>
  \<^verbatim>\<open>bch2_btree_node_alloc\<close>: the node popped from the end of \<^verbatim>\<open>as->prealloc_nodes\<close>,
  with the new state.
\<close>

definition bch2_btree_node_alloc ::
  "update_consts \<Rightarrow> node_env \<Rightarrow> bch_fs \<Rightarrow> update_ref \<Rightarrow> nat \<Rightarrow> error + (node_ref \<times> bch_fs)" where
  "bch2_btree_node_alloc uc x s as lvl =
     (if lvl \<ge> BTREE_MAX_DEPTH uc then Inl BUG
      else case updates s as of
             None \<Rightarrow> Inl NULL_deref
           | Some u \<Rightarrow>
               if prealloc_nodes u = [] then Inl BUG
               else
                 (let b = last (prealloc_nodes u);
                      s1 = s\<lparr>updates := (updates s)(as \<mapsto>
                               u\<lparr>prealloc_nodes := butlast (prealloc_nodes u)\<rparr>)\<rparr>
                  in case nodes s1 b of
                       None \<Rightarrow> Inl NULL_deref
                     | Some n \<Rightarrow>
                        (let n1 = bch2_btree_node_alloc_node x (as_btree_id u) lvl n
                         in if node_hash_insert x n1 \<noteq> 0 then Inl BUG
                            else Inr (b, s1\<lparr>nodes := (nodes s1)(b \<mapsto> n1)\<rparr>))))"

text \<open>
  \<^verbatim>\<open>bch2_btree_node_alloc_replacement\<close> with \<^verbatim>\<open>__bch2_btree_node_alloc_replacement\<close>:
  \<open>new_f\<close> is what \<^verbatim>\<open>bch2_btree_calc_format(b)\<close> returned (the bkey-format functions are
  outside this file). The result is the new node with the new state.
\<close>

definition bch2_btree_node_alloc_replacement ::
  "update_consts \<Rightarrow> btree_consts \<Rightarrow> node_env \<Rightarrow> bch_fs \<Rightarrow> update_ref \<Rightarrow> node_ref \<Rightarrow> bkey_format \<Rightarrow>
   error + (node_ref \<times> bch_fs)" where
  "bch2_btree_node_alloc_replacement uc c x s as b new_f =
     (case nodes s b of
        None \<Rightarrow> Inl NULL_deref
      | Some b0 \<Rightarrow>
         (case bch2_btree_node_format_fits c b0 new_f of
            Inl e \<Rightarrow> Inl e
          | Inr fits \<Rightarrow>
             (let fmt = (if fits then new_f else format b0)
              in case bch2_btree_node_alloc uc x s as (level b0) of
                   Inl e \<Rightarrow> Inl e
                 | Inr (n, s1) \<Rightarrow>
                    (case (nodes s1 n, nodes s1 b) of
                       (Some n0, Some b1) \<Rightarrow>
                         Inr (n, s1\<lparr>nodes := (nodes s1)(n \<mapsto>
                                   btree_node_alloc_replacement_format x n0 b1 fmt)\<rparr>)
                     | _ \<Rightarrow> Inl NULL_deref))))"

text \<open>
  \<^verbatim>\<open>__btree_split_node\<close>: the result is \<open>n2\<close> with the new state, in which \<open>n1\<close> holds
  the keys in front of the split and \<open>n2\<close> the keys behind it.
\<close>

definition btree_split_node ::
  "update_consts \<Rightarrow> btree_consts \<Rightarrow> node_env \<Rightarrow> bool \<Rightarrow> bch_fs \<Rightarrow> update_ref \<Rightarrow> node_ref \<Rightarrow>
   error + (node_ref \<times> bch_fs)" where
  "btree_split_node uc c x replay_done s as n1 =
     (case nodes s n1 of
        None \<Rightarrow> Inl NULL_deref
      | Some b1 \<Rightarrow>
         (case bch2_btree_node_alloc uc x s as (level b1) of
            Inl e \<Rightarrow> Inl e
          | Inr (n2, s1) \<Rightarrow>
             (case bch2_btree_update_add_new_node uc s1 as n2 of
                Inl e \<Rightarrow> Inl e
              | Inr s2 \<Rightarrow>
                 (case (nodes s2 n1, nodes s2 n2) of
                    (Some v1, Some v2) \<Rightarrow>
                      (case split_node_keys c x replay_done v1 v2 of
                         Inl e \<Rightarrow> Inl e
                       | Inr (w1, w2) \<Rightarrow>
                           Inr (n2, s2\<lparr>nodes := (nodes s2)(n1 \<mapsto> w1, n2 \<mapsto> w2)\<rparr>))
                  | _ \<Rightarrow> Inl NULL_deref))))"

text \<open>
  \<^verbatim>\<open>bch2_insert_fixup_btree_ptr\<close>: the key is recorded in the journal entries of the
  update and put into the node.
\<close>

definition bch2_insert_fixup_btree_ptr ::
  "update_consts \<Rightarrow> node_env \<Rightarrow> bch_fs \<Rightarrow> update_ref \<Rightarrow> node_ref \<Rightarrow> bkey \<Rightarrow> error + bch_fs" where
  "bch2_insert_fixup_btree_ptr uc x s as b k =
     (case (updates s as, nodes s b) of
        (Some u, Some n) \<Rightarrow>
          if journal_u64s uc u + (k_u64s k + JSET_ENTRY_U64s uc) >
               JOURNAL_ENTRIES_U64s_MAX uc then Inl BUG
          else
            (let u1 = u\<lparr>journal_entries := journal_entries u @
                         [(BCH_JSET_ENTRY_btree_keys, btree_id n, level n, k)]\<rparr>;
                 n1 = bset_insert_key x n k;
                 n2 = n1\<lparr>flags := flags n1 \<union> {BTREE_NODE_dirty, BTREE_NODE_need_write}\<rparr>
             in Inr (s\<lparr>updates := (updates s)(as \<mapsto> u1), nodes := (nodes s)(b \<mapsto> n2)\<rparr>))
      | _ \<Rightarrow> Inl NULL_deref)"

text \<open>The loop of \<^verbatim>\<open>btree_split_insert_keys\<close> over the key list.\<close>

fun insert_fixup_keys ::
  "update_consts \<Rightarrow> node_env \<Rightarrow> bch_fs \<Rightarrow> update_ref \<Rightarrow> node_ref \<Rightarrow> bkey list \<Rightarrow> error + bch_fs" where
  "insert_fixup_keys uc x s as b [] = Inr s"
| "insert_fixup_keys uc x s as b (k # ks) =
     (case bch2_insert_fixup_btree_ptr uc x s as b k of
        Inl e \<Rightarrow> Inl e
      | Inr s1 \<Rightarrow> insert_fixup_keys uc x s1 as b ks)"

text \<open>
  \<^verbatim>\<open>btree_split_insert_keys\<close>. \<^verbatim>\<open>btree_node_type(b)\<close> is \<^verbatim>\<open>BKEY_TYPE_BTREE\<close> exactly
  for the nodes above level 0.
\<close>

definition btree_split_insert_keys ::
  "update_consts \<Rightarrow> btree_consts \<Rightarrow> node_env \<Rightarrow> bool \<Rightarrow> bch_fs \<Rightarrow> update_ref \<Rightarrow> node_ref \<Rightarrow>
   bkey list \<Rightarrow> error + bch_fs" where
  "btree_split_insert_keys uc c x replay_done s as b keys =
     (case nodes s b of
        None \<Rightarrow> Inl NULL_deref
      | Some n \<Rightarrow>
          if level n = 0 then Inl BUG
          else
            (case insert_fixup_keys uc x s as b keys of
               Inl e \<Rightarrow> Inl e
             | Inr s1 \<Rightarrow>
                (case nodes s1 b of
                   None \<Rightarrow> Inl NULL_deref
                 | Some b1 \<Rightarrow>
                    (let b2 = set_btree_bset_first b1 (compact_deleted [] (btree_bset_first b1))
                     in if length (sets b2) \<noteq> 1 \<or>
                           unat (live_u64s (nr b2)) \<noteq> set_u64s (btree_bset_first b2)
                        then Inl BUG
                        else (case btree_node_interior_verify c x replay_done b2 of
                                Inl e \<Rightarrow> Inl e
                              | Inr _ \<Rightarrow> Inr (s1\<lparr>nodes := (nodes s1)(b \<mapsto> b2)\<rparr>))))))"

text \<open>
  \<^verbatim>\<open>btree_split\<close>, from the allocation of the replacement to the point where the new
  nodes are written: \<open>keys\<close> is the optional key list. The result is \<open>n1\<close> and, when the
  node was split, \<open>n2\<close>, with the new state.
\<close>

definition btree_split_nodes ::
  "update_consts \<Rightarrow> btree_consts \<Rightarrow> node_env \<Rightarrow> bool \<Rightarrow> bch_fs \<Rightarrow> update_ref \<Rightarrow> node_ref \<Rightarrow>
   bkey_format \<Rightarrow> bkey list option \<Rightarrow> error + ((node_ref \<times> node_ref option) \<times> bch_fs)" where
  "btree_split_nodes uc c x replay_done s as b new_f keys =
     (case bch2_btree_node_alloc_replacement uc c x s as b new_f of
        Inl e \<Rightarrow> Inl e
      | Inr (n1, s1) \<Rightarrow>
         (case bch2_btree_update_add_new_node uc s1 as n1 of
            Inl e \<Rightarrow> Inl e
          | Inr s2 \<Rightarrow>
             (case (case keys of
                      None \<Rightarrow> Inr s2
                    | Some ks \<Rightarrow> btree_split_insert_keys uc c x replay_done s2 as n1 ks) of
                Inl e \<Rightarrow> Inl e
              | Inr s3 \<Rightarrow>
                 (case nodes s3 n1 of
                    None \<Rightarrow> Inl NULL_deref
                  | Some v1 \<Rightarrow>
                      if set_u64s (btree_bset_first v1) > SPLIT_THRESHOLD c then
                        (case btree_split_node uc c x replay_done s3 as n1 of
                           Inl e \<Rightarrow> Inl e
                         | Inr (n2, s4) \<Rightarrow> Inr ((n1, Some n2), s4))
                      else Inr ((n1, None), s3)))))"

subsection \<open>The node reserve of an update\<close>

text \<open>
  \<^verbatim>\<open>__btree_node_free\<close>. The hash table of the node cache is not represented.
\<close>

definition btree_node_free :: "bch_fs \<Rightarrow> node_ref \<Rightarrow> error + bch_fs" where
  "btree_node_free s b =
     (case nodes s b of
        None \<Rightarrow> Inl NULL_deref
      | Some n \<Rightarrow>
          if BTREE_NODE_dirty \<in> flags n then Inl BUG
          else if BTREE_NODE_need_write \<in> flags n then Inl BUG
          else if btree_roots s (btree_id n) = Some b then Inl BUG
          else if ob n \<noteq> [] then Inl BUG
          else if write_blocked n \<noteq> [] then Inl BUG
          else if will_make_reachable n \<noteq> 0 then Inl BUG
          else Inr (s\<lparr>nodes := (nodes s)(b \<mapsto>
                      n\<lparr>flags := flags n - {BTREE_NODE_noevict},
                        cache_list := Some Cache_freeable\<rparr>)\<rparr>))"

text \<open>
  The loop of \<^verbatim>\<open>bch2_btree_reserve_put\<close>; the list holds the preallocated nodes still
  to release, the one at the end of \<^verbatim>\<open>as->prealloc_nodes\<close> first. A node goes into
  \<^verbatim>\<open>c->btree_reserve_cache\<close> with its open buckets while the cache has room; otherwise
  \<^verbatim>\<open>bch2_open_buckets_put\<close> gives its buckets back to the allocator.
\<close>

fun reserve_put_nodes ::
  "update_consts \<Rightarrow> bch_fs \<Rightarrow> update_ref \<Rightarrow> node_ref list \<Rightarrow> error + bch_fs" where
  "reserve_put_nodes uc s as [] = Inr s"
| "reserve_put_nodes uc s as (b # bs) =
     (let s1 = update_upd s as (\<lambda>u. u\<lparr>prealloc_nodes := butlast (prealloc_nodes u)\<rparr>)
      in case nodes s1 b of
           None \<Rightarrow> Inl NULL_deref
         | Some n \<Rightarrow>
            (let s2 = (if length (btree_reserve_cache s1) < RESERVE_CACHE_SIZE uc
                       then s1\<lparr>btree_reserve_cache := btree_reserve_cache s1 @ [(ob n, key n)]\<rparr>
                       else s1\<lparr>open_buckets_freed := open_buckets_freed s1 @ ob n\<rparr>);
                 s3 = s2\<lparr>nodes := (nodes s2)(b \<mapsto> n\<lparr>ob := []\<rparr>)\<rparr>
             in (case btree_node_free s3 b of
                   Inl e \<Rightarrow> Inl e
                 | Inr s4 \<Rightarrow> reserve_put_nodes uc s4 as bs)))"

definition bch2_btree_reserve_put :: "update_consts \<Rightarrow> bch_fs \<Rightarrow> update_ref \<Rightarrow> error + bch_fs" where
  "bch2_btree_reserve_put uc s as =
     (case updates s as of
        None \<Rightarrow> Inl NULL_deref
      | Some u \<Rightarrow> reserve_put_nodes uc s as (rev (prealloc_nodes u)))"

text \<open>
  What the collaborators of \<^verbatim>\<open>bch2_btree_update_start\<close> answer during one call: the
  element \<^verbatim>\<open>mempool_alloc\<close> returns, the result of \<^verbatim>\<open>bch2_journal_preres_get\<close> for a
  set of flags, of \<^verbatim>\<open>bch2_trans_relock\<close>, of \<^verbatim>\<open>bch2_disk_reservation_get\<close> and of
  \<^verbatim>\<open>bch2_btree_cache_cannibalize_lock\<close>, and for the allocation of the \<open>i\<close>-th
  preallocated node the outcome of the allocator (an error, or open buckets and a key; the
  source retries \<^verbatim>\<open>bch2_alloc_sectors_start\<close> until a write point has room), the node
  \<^verbatim>\<open>bch2_btree_node_mem_alloc\<close> returns and the result of \<^verbatim>\<open>bch2_mark_bkey_replicas\<close>.
\<close>

record start_env =
  new_update :: update_ref
  preres_get :: "journal_res_flag set \<Rightarrow> int"
  trans_relock :: bool
  disk_reservation_get :: int
  cannibalize_lock :: int
  alloc_sectors :: "nat \<Rightarrow> int + (nat list \<times> bkey)"
  mem_alloc :: "nat \<Rightarrow> node_ref"
  mark_bkey_replicas :: "nat \<Rightarrow> int"

text \<open>
  \<^verbatim>\<open>__bch2_btree_node_alloc\<close> for the \<open>i\<close>-th preallocated node: the result is an errno
  (\<^verbatim>\<open>ERR_PTR\<close>) or the node, with the new state.
\<close>

definition btree_node_alloc_reserve ::
  "update_consts \<Rightarrow> start_env \<Rightarrow> btree_insert_flag set \<Rightarrow> bch_fs \<Rightarrow> nat \<Rightarrow>
   error + ((int + node_ref) \<times> bch_fs)" where
  "btree_node_alloc_reserve uc env fl s i =
     (let nr_reserve = (if BTREE_INSERT_USE_ALLOC_RESERVE \<in> fl then 0
                        else if BTREE_INSERT_USE_RESERVE \<in> fl then BTREE_NODE_RESERVE uc div 2
                        else BTREE_NODE_RESERVE uc);
          from_cache = length (btree_reserve_cache s) > nr_reserve;
          got = (if from_cache then Inr (last (btree_reserve_cache s)) else alloc_sectors env i);
          s1 = (if from_cache
                then s\<lparr>btree_reserve_cache := butlast (btree_reserve_cache s)\<rparr> else s)
      in case got of
           Inl e \<Rightarrow> Inr (Inl e, s1)
         | Inr (obs, k) \<Rightarrow>
            (case nodes s1 (mem_alloc env i) of
               None \<Rightarrow> Inl NULL_deref
             | Some n \<Rightarrow>
                 if ob n \<noteq> [] then Inl BUG
                 else Inr (Inr (mem_alloc env i),
                           s1\<lparr>nodes := (nodes s1)(mem_alloc env i \<mapsto> n\<lparr>key := k, ob := obs\<rparr>)\<rparr>)))"

text \<open>
  The loop of \<^verbatim>\<open>bch2_btree_reserve_get\<close>: \<open>n\<close> nodes are still to allocate. The result
  is the return value with the new state.
\<close>

fun reserve_get_loop ::
  "update_consts \<Rightarrow> start_env \<Rightarrow> btree_insert_flag set \<Rightarrow> bch_fs \<Rightarrow> update_ref \<Rightarrow> nat \<Rightarrow>
   error + (int \<times> bch_fs)" where
  "reserve_get_loop uc env fl s as 0 = Inr (0, s)"
| "reserve_get_loop uc env fl s as (Suc n) =
     (case updates s as of
        None \<Rightarrow> Inl NULL_deref
      | Some u \<Rightarrow>
         (let i = length (prealloc_nodes u)
          in case btree_node_alloc_reserve uc env fl s i of
               Inl e \<Rightarrow> Inl e
             | Inr (Inl e, s1) \<Rightarrow> Inr (e, s1)
             | Inr (Inr b, s1) \<Rightarrow>
                 if mark_bkey_replicas env i \<noteq> 0 then Inr (mark_bkey_replicas env i, s1)
                 else reserve_get_loop uc env fl
                        (update_upd s1 as (\<lambda>u. u\<lparr>prealloc_nodes := prealloc_nodes u @ [b]\<rparr>))
                        as n))"

definition bch2_btree_reserve_get ::
  "update_consts \<Rightarrow> start_env \<Rightarrow> btree_insert_flag set \<Rightarrow> bch_fs \<Rightarrow> update_ref \<Rightarrow> nat \<Rightarrow>
   error + (int \<times> bch_fs)" where
  "bch2_btree_reserve_get uc env fl s as nr_nodes =
     (if nr_nodes > BTREE_RESERVE_MAX uc then Inl BUG
      else if cannibalize_lock env \<noteq> 0 then Inr (cannibalize_lock env, s)
      else case updates s as of
             None \<Rightarrow> Inl NULL_deref
           | Some u \<Rightarrow> reserve_get_loop uc env fl s as (nr_nodes - length (prealloc_nodes u)))"

subsection \<open>Starting and freeing an update\<close>

text \<open>
  \<^verbatim>\<open>bch2_btree_update_free\<close>: the journal pre-reservation, the journal pin and the disk
  reservation are released, the preallocated nodes put back, the update unlinked from
  both lists and returned to the pool.
\<close>

definition bch2_btree_update_free :: "update_consts \<Rightarrow> bch_fs \<Rightarrow> update_ref \<Rightarrow> error + bch_fs" where
  "bch2_btree_update_free uc s as =
     (case updates s as of
        None \<Rightarrow> Inl NULL_deref
      | Some u \<Rightarrow>
         (let s1 = s\<lparr>journal_prereserved := journal_prereserved s - journal_preres u,
                     disk_reserved := disk_reserved s - disk_res u,
                     updates := (updates s)(as \<mapsto>
                        u\<lparr>journal_preres := 0, journal := bch2_journal_pin_drop (journal u),
                          disk_res := 0\<rparr>)\<rparr>
          in case bch2_btree_reserve_put uc s1 as of
               Inl e \<Rightarrow> Inl e
             | Inr s2 \<Rightarrow>
                 Inr (s2\<lparr>btree_interior_updates_unwritten :=
                            removeAll as (btree_interior_updates_unwritten s2),
                          btree_interior_update_list :=
                            removeAll as (btree_interior_update_list s2),
                          updates := (updates s2)(as := None)\<rparr>)))"

text \<open>The update as \<^verbatim>\<open>bch2_btree_update_start\<close> initialises it.\<close>

definition btree_update_init :: "nat \<Rightarrow> btree_update" where
  "btree_update_init bid = \<lparr>mode = BTREE_INTERIOR_NO_UPDATE, nodes_written = False,
     as_btree_id = bid, as_b = None, journal = None, journal_preres = 0, disk_res = 0,
     cl_remaining = 0, prealloc_nodes = [], new_nodes = [], old_keys = [], new_keys = [],
     parent_keys = [], journal_entries = [], open_buckets = [], must_rewrite = False\<rparr>"

text \<open>
  One call of \<^verbatim>\<open>bch2_journal_preres_get\<close> for the update \<open>as\<close>: the call is recorded,
  and when it returns 0 the update holds the pre-reservation.
\<close>

definition journal_preres_get_call ::
  "update_consts \<Rightarrow> start_env \<Rightarrow> bch_fs \<Rightarrow> update_ref \<Rightarrow> journal_res_flag set \<Rightarrow> int \<times> bch_fs" where
  "journal_preres_get_call uc env s as jf =
     (let s1 = s\<lparr>calls := calls s @ [Journal_preres_get (BTREE_UPDATE_JOURNAL_RES uc) jf]\<rparr>
      in if preres_get env jf = 0
         then (0, (update_upd s1 as (\<lambda>u. u\<lparr>journal_preres := BTREE_UPDATE_JOURNAL_RES uc\<rparr>))
                    \<lparr>journal_prereserved :=
                        journal_prereserved s1 + BTREE_UPDATE_JOURNAL_RES uc\<rparr>)
         else (preres_get env jf, s1))"

text \<open>
  \<^verbatim>\<open>bch2_btree_update_start\<close>, from the disk reservation on (the part behind the
  journal pre-reservation): the result is \<^verbatim>\<open>ERR_PTR(ret)\<close> or the update.
\<close>

definition update_start_reserve ::
  "update_consts \<Rightarrow> start_env \<Rightarrow> bch_fs \<Rightarrow> update_ref \<Rightarrow> nat \<Rightarrow> btree_insert_flag set \<Rightarrow>
   error + ((int + update_ref) \<times> bch_fs)" where
  "update_start_reserve uc env s as nr_nodes fl =
     (if disk_reservation_get env \<noteq> 0 then
        (case bch2_btree_update_free uc s as of
           Inl e \<Rightarrow> Inl e
         | Inr s1 \<Rightarrow> Inr (Inl (disk_reservation_get env), s1))
      else
        (let sectors = nr_nodes * opts_btree_node_size uc * opts_metadata_replicas uc;
             s1 = (update_upd s as (\<lambda>u. u\<lparr>disk_res := disk_res u + sectors\<rparr>))
                    \<lparr>disk_reserved := disk_reserved s + sectors\<rparr>
         in case bch2_btree_reserve_get uc env fl s1 as nr_nodes of
              Inl e \<Rightarrow> Inl e
            | Inr (ret, s2) \<Rightarrow>
                if ret \<noteq> 0 then
                  (case bch2_btree_update_free uc s2 as of
                     Inl e \<Rightarrow> Inl e
                   | Inr s3 \<Rightarrow> Inr (Inl ret, s3))
                else
                  Inr (Inr as, s2\<lparr>btree_interior_update_list :=
                                    btree_interior_update_list s2 @ [as]\<rparr>)))"

text \<open>
  \<^verbatim>\<open>journal_flags\<close> of \<^verbatim>\<open>bch2_btree_update_start\<close>.
\<close>

definition start_journal_flags :: "btree_insert_flag set \<Rightarrow> journal_res_flag set" where
  "start_journal_flags fl =
     (if BTREE_INSERT_JOURNAL_RESERVED \<in> fl then {JOURNAL_RES_GET_RECLAIM} else {})"

text \<open>
  \<^verbatim>\<open>bch2_btree_update_start\<close>: the result is \<^verbatim>\<open>ERR_PTR(ret)\<close> or the update, with the
  state the call leaves.
\<close>

definition bch2_btree_update_start ::
  "update_consts \<Rightarrow> start_env \<Rightarrow> bch_fs \<Rightarrow> nat \<Rightarrow> nat \<Rightarrow> btree_insert_flag set \<Rightarrow>
   error + ((int + update_ref) \<times> bch_fs)" where
  "bch2_btree_update_start uc env s bid nr_nodes fl =
     (let journal_flags = start_journal_flags fl
      in if journal_error s \<noteq> 0 then Inr (Inl (journal_error s), s)
         else
           (let as = new_update env;
                s1 = s\<lparr>updates := (updates s)(as \<mapsto> btree_update_init bid)\<rparr>;
                (ret, s2) = journal_preres_get_call uc env s1 as
                              (journal_flags \<union> {JOURNAL_RES_GET_NONBLOCK})
            in if ret = - EAGAIN then
                 (if BTREE_INSERT_NOUNLOCK \<in> fl then Inr (Inl (- EINTR), s2)
                  else
                    (let s3 = s2\<lparr>calls := calls s2 @ [Trans_unlock]\<rparr>;
                         (ret1, s4) = journal_preres_get_call uc env s3 as journal_flags
                     in if ret1 \<noteq> 0 then Inr (Inl ret1, s4)
                        else
                          (let s5 = s4\<lparr>calls := calls s4 @ [Trans_relock]\<rparr>
                           in if \<not> trans_relock env then
                                (case bch2_btree_update_free uc s5 as of
                                   Inl e \<Rightarrow> Inl e
                                 | Inr s6 \<Rightarrow> Inr (Inl (- EINTR), s6))
                              else update_start_reserve uc env s5 as nr_nodes fl)))
               else update_start_reserve uc env s2 as nr_nodes fl))"

subsection \<open>Btree roots\<close>

text \<open>
  \<^verbatim>\<open>bch2_btree_set_root_inmem\<close>. \<^verbatim>\<open>bch2_recalc_btree_reserve\<close> is outside this file and
  not represented.
\<close>

definition bch2_btree_set_root_inmem :: "bch_fs \<Rightarrow> node_ref \<Rightarrow> error + bch_fs" where
  "bch2_btree_set_root_inmem s b =
     (case nodes s b of
        None \<Rightarrow> Inl NULL_deref
      | Some n0 \<Rightarrow>
         (let n = n0\<lparr>cache_list := None\<rparr>;
              s1 = s\<lparr>nodes := (nodes s)(b \<mapsto> n)\<rparr>
          in case btree_roots s1 (btree_id n) of
               None \<Rightarrow> Inr (s1\<lparr>btree_roots := (btree_roots s1)(btree_id n \<mapsto> b)\<rparr>)
             | Some r \<Rightarrow>
                (case nodes s1 r of
                   None \<Rightarrow> Inl NULL_deref
                 | Some old \<Rightarrow>
                     if level n < level old \<or> BTREE_NODE_dying \<notin> flags old then Inl BUG
                     else Inr (s1\<lparr>btree_roots := (btree_roots s1)(btree_id n \<mapsto> b)\<rparr>))))"

text \<open>\<^verbatim>\<open>btree_update_updated_root\<close>.\<close>

definition btree_update_updated_root ::
  "update_consts \<Rightarrow> bch_fs \<Rightarrow> update_ref \<Rightarrow> node_ref \<Rightarrow> error + bch_fs" where
  "btree_update_updated_root uc s as b =
     (case (updates s as, nodes s b) of
        (Some u, Some n) \<Rightarrow>
          if mode u \<noteq> BTREE_INTERIOR_NO_UPDATE then Inl BUG
          else if journal_u64s uc u + (k_u64s (key n) + JSET_ENTRY_U64s uc) >
                  JOURNAL_ENTRIES_U64s_MAX uc then Inl BUG
          else Inr (s\<lparr>updates := (updates s)(as \<mapsto>
                        u\<lparr>journal_entries := journal_entries u @
                             [(BCH_JSET_ENTRY_btree_root, btree_id n, level n, key n)],
                          mode := BTREE_INTERIOR_UPDATING_ROOT\<rparr>),
                      btree_interior_updates_unwritten :=
                        btree_interior_updates_unwritten s @ [as]\<rparr>)
      | _ \<Rightarrow> Inl NULL_deref)"

text \<open>
  \<^verbatim>\<open>bch2_btree_set_root\<close>. The write lock on the old root is not represented; without
  an old root the source locks through a null pointer.
\<close>

definition bch2_btree_set_root ::
  "update_consts \<Rightarrow> bch_fs \<Rightarrow> update_ref \<Rightarrow> node_ref \<Rightarrow> error + bch_fs" where
  "bch2_btree_set_root uc s as b =
     (case nodes s b of
        None \<Rightarrow> Inl NULL_deref
      | Some n \<Rightarrow>
          if written n = 0 \<and> \<not> hold_btree_writes s then Inl BUG
          else (case btree_roots s (btree_id n) of
                  None \<Rightarrow> Inl NULL_deref
                | Some old \<Rightarrow>
                   (case bch2_btree_set_root_inmem s b of
                      Inl e \<Rightarrow> Inl e
                    | Inr s1 \<Rightarrow> btree_update_updated_root uc s1 as b)))"

text \<open>\<^verbatim>\<open>bch2_btree_set_root_for_read\<close>, for filesystem bringup.\<close>

definition bch2_btree_set_root_for_read :: "bch_fs \<Rightarrow> node_ref \<Rightarrow> error + bch_fs" where
  "bch2_btree_set_root_for_read s b =
     (case nodes s b of
        None \<Rightarrow> Inl NULL_deref
      | Some n \<Rightarrow>
          if btree_roots s (btree_id n) \<noteq> None then Inl BUG
          else bch2_btree_set_root_inmem s b)"

subsection \<open>The lifetime of the back-reference of a new node\<close>

text \<open>
  The two ways in which the tagged back-reference of a node is cleared, the completion
  of a write of the node and \<^verbatim>\<open>btree_update_drop_new_node\<close> from
  \<^verbatim>\<open>bch2_btree_interior_update_will_free_node\<close>, as events, and the state after a
  sequence of them on a node \<open>b\<close>. Each event is one step: the source does the first by
  \<^verbatim>\<open>cmpxchg\<close>, the second by \<^verbatim>\<open>xchg\<close> under \<^verbatim>\<open>btree_interior_update_lock\<close>.
\<close>

datatype reach_event = Write_completed | Node_dropped

fun clear_events :: "bch_fs \<Rightarrow> node_ref \<Rightarrow> reach_event list \<Rightarrow> error + bch_fs" where
  "clear_events s b [] = Inr s"
| "clear_events s b (e # es) =
     (case (case e of Write_completed \<Rightarrow> bch2_btree_complete_write s b
                    | Node_dropped \<Rightarrow> btree_update_drop_new_node s b) of
        Inl x \<Rightarrow> Inl x
      | Inr s1 \<Rightarrow> clear_events s1 b es)"

text \<open>
  What \<^verbatim>\<open>btree_update_drop_new_node\<close> leaves alone: mode, node and journal pin of
  every update, and the write-blocked list and write pins of every node.
\<close>

definition links_kept :: "bch_fs \<Rightarrow> bch_fs \<Rightarrow> bool" where
  "links_kept s s' \<longleftrightarrow>
     (\<forall>q u. updates s q = Some u \<longrightarrow>
        (\<exists>u'. updates s' q = Some u' \<and> mode u' = mode u \<and> as_b u' = as_b u \<and>
              journal u' = journal u)) \<and>
     (\<forall>r n. nodes s r = Some n \<longrightarrow>
        (\<exists>n'. nodes s' r = Some n' \<and> write_blocked n' = write_blocked n \<and>
              writes n' = writes n))"

subsection \<open>Example nodes\<close>

text \<open>
  A filesystem with btree nodes of 256 KiB, and nodes whose keys are two u64s wide.
\<close>

definition c4_consts :: btree_consts where
  "c4_consts = \<lparr>BKEY_U64s = 5, btree_node_hdr_bytes = 160, btree_bytes = 262144,
      btree_max_u64s = 32748, MERGE_THRESHOLD = 10916, MERGE_HYSTERESIS = 54580,
      SPLIT_THRESHOLD = 21832, CONFIG_BCACHEFS_DEBUG = True\<rparr>"

definition c4_format :: "u8 \<Rightarrow> bkey_format" where
  "c4_format w = \<lparr>key_u64s = w, nr_fields = 6, bits_per_field = [], field_offset = []\<rparr>"

definition pos :: "nat \<Rightarrow> bpos" where
  "pos n = \<lparr>inode = 0, offset = word_of_nat n, snapshot = 0\<rparr>"

definition ptr_v2 :: "nat \<Rightarrow> nat \<Rightarrow> bkey" where
  "ptr_v2 lo hi = \<lparr>k_u64s = 1, k_packed = True, k_type = KEY_TYPE_btree_ptr_v2,
     k_p = pos hi, v_min_key = pos lo\<rparr>"

definition example_node :: btree where
  "example_node = \<lparr>level = 1, btree_id = 0, flags = {},
      key = ptr_v2 0 50,
      data_min_key = pos 0, data_max_key = pos 50,
      data_format = c4_format 2, data_seq = 0,
      format = c4_format 2,
      nr = \<lparr>live_u64s = 0, bset_u64s = [0, 0, 0], packed_keys = 0, unpacked_keys = 0\<rparr>,
      sib_u64s = (U16_MAX, U16_MAX),
      sets = [[]],
      write_blocked = [], will_make_reachable = 0, ob = [],
      writes = (None, None), cache_list = None, written = 0\<rparr>"

definition c4_node :: btree where
  "c4_node = example_node\<lparr>
      nr := \<lparr>live_u64s = 30000, bset_u64s = [30000, 0, 0], packed_keys = 2767,
            unpacked_keys = 0\<rparr>\<rparr>"

definition c9_node :: btree where
  "c9_node = example_node\<lparr>
      nr := \<lparr>live_u64s = 30000, bset_u64s = [30000, 0, 0], packed_keys = 10000,
            unpacked_keys = 0\<rparr>,
      sib_u64s := (0, 0)\<rparr>"

text \<open>
  A successor of positions for the examples (\<^verbatim>\<open>bkey_successor\<close> is outside this file),
  and an interior node with five children that span its range.
\<close>

definition example_successor :: "bpos \<Rightarrow> bpos" where
  "example_successor q = q\<lparr>offset := offset q + 1\<rparr>"

definition n1_ex :: btree where
  "n1_ex = example_node\<lparr>
     sets := [[ptr_v2 0 10, ptr_v2 11 20, ptr_v2 21 30, ptr_v2 31 40, ptr_v2 41 50]],
     nr := \<lparr>live_u64s = 5, bset_u64s = [5, 0, 0], packed_keys = 5, unpacked_keys = 0\<rparr>\<rparr>"

text \<open>
  Inputs for the split with keys to insert: a split threshold of four u64s, a deleted
  key, an insertion that puts the key in front of the first bset, and a node with a
  whiteout among its keys.
\<close>

definition c5_consts :: btree_consts where
  "c5_consts = c4_consts\<lparr>SPLIT_THRESHOLD := 4\<rparr>"

definition deleted_key :: "nat \<Rightarrow> bkey" where
  "deleted_key n = \<lparr>k_u64s = 1, k_packed = True, k_type = KEY_TYPE_deleted,
     k_p = pos n, v_min_key = pos 0\<rparr>"

definition example_insert :: "btree \<Rightarrow> bkey \<Rightarrow> btree" where
  "example_insert b k = set_btree_bset_first b (k # btree_bset_first b)"

text \<open>
  Collaborators for nodes with one bset: the node iterator walks that bset, the
  insertion is \<open>example_insert\<close>, the hash table takes every node, only the leaves of
  btree 0 hold extents, and the superblock has the feature \<^verbatim>\<open>new_extent_overwrite\<close>.
\<close>

definition example_env :: node_env where
  "example_env = \<lparr>bkey_successor = example_successor,
     node_iter_keys = (\<lambda>b. concat (sets b)), bset_insert_key = example_insert,
     node_hash_insert = (\<lambda>b. 0), node_is_extents = (\<lambda>lvl bid. lvl = 0 \<and> bid = 0),
     new_extent_overwrite = True\<rparr>"

definition b_ex :: btree where
  "b_ex = example_node\<lparr>
     sets := [[ptr_v2 0 10, ptr_v2 11 20, deleted_key 25, ptr_v2 21 30, ptr_v2 31 40, ptr_v2 41 50]],
     nr := \<lparr>live_u64s = 5, bset_u64s = [6, 0, 0], packed_keys = 5, unpacked_keys = 0\<rparr>\<rparr>"

subsection \<open>Example states\<close>

text \<open>
  Constants of a small filesystem, an update as \<^verbatim>\<open>bch2_btree_update_start\<close> initialises
  it, an empty filesystem state, a state in which two updates are blocked on node 1, and
  a state with one node and one update.
\<close>

definition example_update_consts :: update_consts where
  "example_update_consts = \<lparr>NEW_NODES_MAX = 8, KEYLIST_U64s_MAX = 128,
     JOURNAL_ENTRIES_U64s_MAX = 256, BTREE_RESERVE_MAX = 7, BTREE_NODE_RESERVE = 8,
     RESERVE_CACHE_SIZE = 16, BTREE_UPDATE_JOURNAL_RES = 128, BTREE_MAX_DEPTH = 4,
     JSET_ENTRY_U64s = 1, opts_btree_node_size = 512, opts_metadata_replicas = 1\<rparr>"

definition example_update :: btree_update where
  "example_update = \<lparr>mode = BTREE_INTERIOR_NO_UPDATE, nodes_written = False, as_btree_id = 0,
     as_b = None, journal = None, journal_preres = 0, disk_res = 0, cl_remaining = 0,
     prealloc_nodes = [], new_nodes = [], old_keys = [], new_keys = [], parent_keys = [],
     journal_entries = [], open_buckets = [], must_rewrite = False\<rparr>"

definition example_fs :: bch_fs where
  "example_fs = \<lparr>nodes = Map.empty, updates = Map.empty, btree_roots = Map.empty,
     btree_reserve_cache = [], btree_interior_update_list = [],
     btree_interior_updates_unwritten = [], journal_error = 0, journal_prereserved = 0,
     disk_reserved = 0, open_buckets_freed = [], hold_btree_writes = False, calls = []\<rparr>"

definition blocked_update :: "u64 \<Rightarrow> btree_update" where
  "blocked_update seq = example_update\<lparr>mode := BTREE_INTERIOR_UPDATING_NODE, as_b := Some 1,
     journal := Some seq\<rparr>"

definition reparent_fs :: bch_fs where
  "reparent_fs = example_fs\<lparr>
     nodes := [1 \<mapsto> example_node\<lparr>write_blocked := [128, 192], writes := (Some 7, None)\<rparr>],
     updates := [64 \<mapsto> example_update\<lparr>journal := Some 9\<rparr>,
                 128 \<mapsto> blocked_update 5, 192 \<mapsto> blocked_update 12]\<rparr>"

definition new_node_fs :: bch_fs where
  "new_node_fs = example_fs\<lparr>nodes := [1 \<mapsto> example_node], updates := [64 \<mapsto> example_update]\<rparr>"

text \<open>
  Collaborators for a call of \<^verbatim>\<open>bch2_btree_update_start\<close>: the journal has no room
  for a non-blocking pre-reservation (\<^verbatim>\<open>-EAGAIN\<close>), a blocking one returns \<open>blocking\<close>,
  and the transaction locks cannot be taken again. The pool hands out the update 64.
\<close>

definition journal_full_env :: "int \<Rightarrow> start_env" where
  "journal_full_env blocking = \<lparr>new_update = 64,
     preres_get = (\<lambda>jf. if JOURNAL_RES_GET_NONBLOCK \<in> jf then - EAGAIN else blocking),
     trans_relock = False, disk_reservation_get = 0, cannibalize_lock = 0,
     alloc_sectors = (\<lambda>i. Inr ([i], ptr_v2 0 0)), mem_alloc = (\<lambda>i. Suc i),
     mark_bkey_replicas = (\<lambda>i. 0)\<rparr>"

text \<open>
  Collaborators for a call in which every reservation succeeds, the allocator gives the
  first node the open bucket 7, and \<^verbatim>\<open>bch2_mark_bkey_replicas\<close> fails for that node
  with \<^verbatim>\<open>-ENOMEM\<close>; and a state whose node cache holds the node 1 ready for use.
\<close>

definition mark_fails_env :: start_env where
  "mark_fails_env = \<lparr>new_update = 64, preres_get = (\<lambda>jf. 0), trans_relock = True,
     disk_reservation_get = 0, cannibalize_lock = 0,
     alloc_sectors = (\<lambda>i. Inr ([7], ptr_v2 0 0)), mem_alloc = (\<lambda>i. Suc i),
     mark_bkey_replicas = (\<lambda>i. - 12)\<rparr>"

definition free_node_fs :: bch_fs where
  "free_node_fs = example_fs\<lparr>nodes := [1 \<mapsto> example_node\<lparr>ob := []\<rparr>]\<rparr>"

text \<open>
  A state with the root 1 of btree 0, at level 1 and marked dying, and a written node 2
  at level 2 that the update 64 is about to make the root.
\<close>

definition root_fs :: bch_fs where
  "root_fs = example_fs\<lparr>
     nodes := [1 \<mapsto> example_node\<lparr>flags := {BTREE_NODE_dying}\<rparr>,
               2 \<mapsto> example_node\<lparr>level := 2, written := 8, cache_list := Some Cache_live\<rparr>],
     updates := [64 \<mapsto> example_update],
     btree_roots := [0 \<mapsto> 1]\<rparr>"

text \<open>
  A state in which the update 64 is about to split the node 1 and holds the
  preallocated node 2, and a state in which it is about to replace and split the node 1
  and holds the preallocated nodes 2 and 3.
\<close>

definition split_fs :: bch_fs where
  "split_fs = example_fs\<lparr>nodes := [1 \<mapsto> n1_ex, 2 \<mapsto> example_node],
     updates := [64 \<mapsto> example_update\<lparr>prealloc_nodes := [2]\<rparr>]\<rparr>"

definition replace_fs :: bch_fs where
  "replace_fs = example_fs\<lparr>nodes := [1 \<mapsto> b_ex, 2 \<mapsto> example_node, 3 \<mapsto> example_node],
     updates := [64 \<mapsto> example_update\<lparr>prealloc_nodes := [3, 2]\<rparr>]\<rparr>"

section \<open>Properties\<close>

subsection \<open>Format fit\<close>

text \<open>
  C4, as amended. The fit test stops on the \<^verbatim>\<open>BUG_ON\<close> when the adjusted count is
  negative; otherwise it returns true exactly when the header of \<^verbatim>\<open>struct btree_node\<close>
  plus eight bytes for each u64 of the node under the new format (the live u64s adjusted
  by the per-key width delta) is less than the size of a btree node in bytes.
\<close>

theorem format_fits_bytes:
  "bch2_btree_node_format_fits c b new_f =
     (if uint (live_u64s (nr b)) + format_delta c b new_f < 0 then Inl BUG
      else Inr (btree_node_hdr_bytes c +
                8 * nat (uint (live_u64s (nr b)) + format_delta c b new_f) < btree_bytes c))"
  by (simp add: bch2_btree_node_format_fits_def btree_node_u64s_with_format_def
      vstruct_bytes_btree_node_def Let_def add.commute mult.commute)

text \<open>
  C4 as stated fails: a node of 256 KiB with 2767 packed keys, 30000 live u64s and keys
  two u64s wide, repacked with keys three u64s wide, takes 32767 u64s; eight times that
  is below the node size, and the fit test is false because of the header bytes.
\<close>

theorem format_fits_counterexample:
  "btree_node_u64s_with_format c4_consts c4_node (c4_format 3) = Inr 32767 \<and>
   32767 * 8 < btree_bytes c4_consts \<and>
   bch2_btree_node_format_fits c4_consts c4_node (c4_format 3) = Inr False"
  by (simp add: bch2_btree_node_format_fits_def btree_node_u64s_with_format_def
      vstruct_bytes_btree_node_def format_delta_def c4_consts_def c4_node_def example_node_def c4_format_def)

subsection \<open>Foreground merge: the cached sibling size\<close>

lemma get_set_sib_u64s: "get_sib_u64s (set_sib_u64s b sib v) sib = v"
  by (cases sib) simp_all

lemma unat_word_of_nat_u16: "n \<le> 65535 \<Longrightarrow> unat (word_of_nat n :: u16) = n"
  by (simp add: unat_of_nat)

lemma merge_hysteresis_le: "merge_hysteresis c u \<le> btree_max_u64s c"
  by (simp add: merge_hysteresis_def Let_def)

text \<open>
  C9. Whenever the size check lets the merge proceed, the cached value of
  \<^verbatim>\<open>b->sib_u64s[sib]\<close> is at most the threshold, before and after the check. When \<open>b\<close> has
  a parent and a sibling \<open>m\<close> and the old cached value did not stop the check, the value
  stored is \<open>u\<close>, the sum of the sizes of \<open>b\<close> and \<open>m\<close> under the union format, replaced by
  \<open>(u - HYSTERESIS) div 2 + HYSTERESIS\<close> when \<open>u\<close> exceeds the hysteresis bound, capped
  at the maximum u64s of a node (which fits the 16-bit field); the merge proceeds exactly
  when the stored value is at most the threshold.
\<close>

theorem foreground_merge_sib_u64s:
  assumes "foreground_maybe_merge_check c has_parent b sib lookup new_f = Inr (b', d)"
  shows "(d = Merge_proceed \<longrightarrow>
            unat (get_sib_u64s b sib) \<le> MERGE_THRESHOLD c \<and>
            unat (get_sib_u64s b' sib) \<le> MERGE_THRESHOLD c) \<and>
         (\<forall>m. has_parent \<and> unat (get_sib_u64s b sib) \<le> MERGE_THRESHOLD c \<and> lookup = Sib m \<and>
              btree_max_u64s c \<le> 65535 \<longrightarrow>
            (\<exists>ub um. btree_node_u64s_with_format c b new_f = Inr ub \<and>
                     btree_node_u64s_with_format c m new_f = Inr um \<and>
                     unat (get_sib_u64s b' sib) =
                       min (if ub + um > MERGE_HYSTERESIS c
                            then (ub + um - MERGE_HYSTERESIS c) div 2 + MERGE_HYSTERESIS c
                            else ub + um) (btree_max_u64s c) \<and>
                     (d = Merge_proceed \<longleftrightarrow>
                        unat (get_sib_u64s b' sib) \<le> MERGE_THRESHOLD c)))"
proof (intro conjI allI impI)
  assume "d = Merge_proceed"
  with assms show "unat (get_sib_u64s b sib) \<le> MERGE_THRESHOLD c"
    by (auto simp: foreground_maybe_merge_check_def Let_def
        split: if_splits sibling_lookup.splits sum.splits)
next
  assume "d = Merge_proceed"
  with assms show "unat (get_sib_u64s b' sib) \<le> MERGE_THRESHOLD c"
    by (auto simp: foreground_maybe_merge_check_def Let_def
        split: if_splits sibling_lookup.splits sum.splits)
next
  fix m
  assume h: "has_parent \<and> unat (get_sib_u64s b sib) \<le> MERGE_THRESHOLD c \<and> lookup = Sib m \<and>
              btree_max_u64s c \<le> 65535"
  from assms h obtain ub um where
    ub: "btree_node_u64s_with_format c b new_f = Inr ub" and
    um: "btree_node_u64s_with_format c m new_f = Inr um"
    by (auto simp: foreground_maybe_merge_check_def split: sum.splits)
  let ?v = "merge_hysteresis c (ub + um)"
  have le: "?v \<le> 65535"
    using merge_hysteresis_le [of c "ub + um"] h by linarith
  from assms h ub um have b': "get_sib_u64s b' sib = word_of_nat ?v"
    by (auto simp: foreground_maybe_merge_check_def Let_def get_set_sib_u64s split: if_splits)
  have v: "unat (get_sib_u64s b' sib) = ?v"
    using le by (simp add: b' unat_word_of_nat_u16)
  from assms h ub um
  have d: "d = Merge_proceed \<longleftrightarrow> unat (get_sib_u64s b' sib) \<le> MERGE_THRESHOLD c"
    by (auto simp: foreground_maybe_merge_check_def Let_def split: if_splits)
  show "\<exists>ub um. btree_node_u64s_with_format c b new_f = Inr ub \<and>
                     btree_node_u64s_with_format c m new_f = Inr um \<and>
                     unat (get_sib_u64s b' sib) =
                       min (if ub + um > MERGE_HYSTERESIS c
                            then (ub + um - MERGE_HYSTERESIS c) div 2 + MERGE_HYSTERESIS c
                            else ub + um) (btree_max_u64s c) \<and>
                     (d = Merge_proceed \<longleftrightarrow>
                        unat (get_sib_u64s b' sib) \<le> MERGE_THRESHOLD c)"
    using ub um v d by (auto simp: merge_hysteresis_def Let_def)
qed

theorem foreground_merge_sib_u64s_witness:
  "foreground_maybe_merge_check c4_consts True c9_node btree_next_sib (Sib c9_node)
     (c4_format 2) = Inr (set_sib_u64s c9_node btree_next_sib 32748, Merge_out) \<and>
   btree_node_u64s_with_format c4_consts c9_node (c4_format 2) = Inr 30000 \<and>
   unat (get_sib_u64s (set_sib_u64s c9_node btree_next_sib 32748) btree_next_sib) =
     min ((30000 + 30000 - MERGE_HYSTERESIS c4_consts) div 2 + MERGE_HYSTERESIS c4_consts)
       (btree_max_u64s c4_consts)"
proof -
  have u: "btree_node_u64s_with_format c4_consts c9_node (c4_format 2) = Inr 30000"
    by (simp add: btree_node_u64s_with_format_def format_delta_def c4_consts_def c9_node_def
        example_node_def c4_format_def)
  have h: "foreground_maybe_merge_check c4_consts True c9_node btree_next_sib (Sib c9_node)
     (c4_format 2) = Inr (set_sib_u64s c9_node btree_next_sib 32748, Merge_out)"
    by (simp add: foreground_maybe_merge_check_def u merge_hysteresis_def)
       (simp add: c4_consts_def c9_node_def example_node_def)
  have t: "unat (get_sib_u64s c9_node btree_next_sib) \<le> MERGE_THRESHOLD c4_consts"
    by (simp add: c9_node_def example_node_def)
  have m: "btree_max_u64s c4_consts \<le> 65535"
    by (simp add: c4_consts_def)
  from foreground_merge_sib_u64s [OF h] t m u h show ?thesis
    by (auto simp: c4_consts_def)
qed

subsection \<open>Splitting: the pivot\<close>

lemma set_u64s_append: "set_u64s (xs @ ys) = set_u64s xs + set_u64s ys"
  by (simp add: set_u64s_def)

lemma set_u64s_Cons: "set_u64s (x # xs) = k_u64s x + set_u64s xs"
  by (simp add: set_u64s_def)

lemma set_u64s_Nil: "set_u64s [] = 0"
  by (simp add: set_u64s_def)

lemma set_u64s_pos: "xs \<noteq> [] \<Longrightarrow> \<forall>k\<in>set xs. 1 \<le> k_u64s k \<Longrightarrow> 0 < set_u64s xs"
  by (cases xs) (auto simp: set_u64s_Cons)

lemma split_walk_shape:
  assumes "split_walk thr off front k rest np nu = (front', k', rest', np', nu')"
      and "off = set_u64s front"
  shows "front @ k # rest = front' @ k' # rest' \<and>
         (\<exists>mid. front' = front @ mid) \<and>
         (rest' = [] \<or> thr \<le> set_u64s front') \<and>
         (front' \<noteq> front \<longrightarrow> set_u64s (butlast front') < thr)"
  using assms
proof (induction rest arbitrary: off front k np nu)
  case Nil
  then show ?case by simp
next
  case (Cons n rest)
  show ?case
  proof (cases "off \<ge> thr")
    case True
    with Cons.prems show ?thesis by simp
  next
    case False
    with Cons.prems have rec: "split_walk thr (off + k_u64s k) (front @ [k]) n rest
             (if k_packed k then np + 1 else np)
             (if k_packed k then nu else nu + 1) = (front', k', rest', np', nu')"
      by simp
    have off': "off + k_u64s k = set_u64s (front @ [k])"
      using Cons.prems(2) by (simp add: set_u64s_append set_u64s_Cons set_u64s_Nil)
    from Cons.IH [OF rec off'] have
      a: "(front @ [k]) @ n # rest = front' @ k' # rest'" and
      b: "\<exists>mid. front' = (front @ [k]) @ mid" and
      c: "rest' = [] \<or> thr \<le> set_u64s front'" and
      d: "front' \<noteq> front @ [k] \<longrightarrow> set_u64s (butlast front') < thr"
      by blast+
    have e: "set_u64s (butlast front') < thr"
    proof (cases "front' = front @ [k]")
      case True
      then show ?thesis using False Cons.prems(2) by simp
    next
      case False
      then show ?thesis using d by simp
    qed
    from b obtain mid where "front' = front @ (k # mid)" by auto
    then have b': "\<exists>mid. front' = front @ mid" by blast
    from a b' c e show ?thesis by simp
  qed
qed

lemma split_walk_counts:
  assumes "split_walk thr off front k rest np nu = (front', k', rest', np', nu')"
  shows "\<exists>mid. front' = front @ mid \<and> np' = np + length (filter k_packed mid) \<and>
           nu' = nu + length (filter (\<lambda>k. \<not> k_packed k) mid)"
  using assms
proof (induction rest arbitrary: off front k np nu)
  case Nil
  then show ?case by simp
next
  case (Cons n rest)
  show ?case
  proof (cases "off \<ge> thr")
    case True
    with Cons.prems show ?thesis by simp
  next
    case False
    with Cons.prems have rec: "split_walk thr (off + k_u64s k) (front @ [k]) n rest
             (if k_packed k then np + 1 else np)
             (if k_packed k then nu else nu + 1) = (front', k', rest', np', nu')"
      by simp
    from Cons.IH [OF rec] obtain mid where
      "front' = (front @ [k]) @ mid"
      "np' = (if k_packed k then np + 1 else np) + length (filter k_packed mid)"
      "nu' = (if k_packed k then nu else nu + 1) + length (filter (\<lambda>k. \<not> k_packed k) mid)"
      by blast
    then have "front' = front @ (k # mid) \<and> np' = np + length (filter k_packed (k # mid)) \<and>
           nu' = nu + length (filter (\<lambda>k. \<not> k_packed k) (k # mid))"
      by simp
    then show ?thesis by blast
  qed
qed

lemma split_walk_front_nonempty:
  assumes "split_walk thr 0 [] k0 (k1 # ks) np nu = (front', k', rest', np', nu')"
      and "0 < thr"
  shows "front' \<noteq> []"
proof -
  from assms have rec: "split_walk thr (0 + k_u64s k0) ([] @ [k0]) k1 ks
             (if k_packed k0 then np + 1 else np)
             (if k_packed k0 then nu else nu + 1) = (front', k', rest', np', nu')"
    by simp
  from split_walk_counts [OF rec] show ?thesis by auto
qed

lemma btree_bset_first_set [simp]: "btree_bset_first (set_btree_bset_first b ks) = ks"
  by (simp add: btree_bset_first_def set_btree_bset_first_def split: list.splits)

lemma set_btree_bset_first_fields [simp]:
  "data_min_key (set_btree_bset_first b ks) = data_min_key b"
  "data_max_key (set_btree_bset_first b ks) = data_max_key b"
  "key (set_btree_bset_first b ks) = key b"
  "level (set_btree_bset_first b ks) = level b"
  "nr (set_btree_bset_first b ks) = nr b"
  by (simp_all add: set_btree_bset_first_def)

lemma reset_sib_u64s_fields [simp]:
  "data_min_key (btree_node_reset_sib_u64s b) = data_min_key b"
  "data_max_key (btree_node_reset_sib_u64s b) = data_max_key b"
  "key (btree_node_reset_sib_u64s b) = key b"
  "level (btree_node_reset_sib_u64s b) = level b"
  "sets (btree_node_reset_sib_u64s b) = sets b"
  "btree_bset_first (btree_node_reset_sib_u64s b) = btree_bset_first b"
  by (simp_all add: btree_node_reset_sib_u64s_def btree_bset_first_def)

lemma btree_set_max_fields [simp]:
  "data_min_key (btree_set_max b q) = data_min_key b"
  "data_max_key (btree_set_max b q) = q"
  "k_p (key (btree_set_max b q)) = q"
  "v_min_key (key (btree_set_max b q)) = v_min_key (key b)"
  "k_type (key (btree_set_max b q)) = k_type (key b)"
  "level (btree_set_max b q) = level b"
  "sets (btree_set_max b q) = sets b"
  by (simp_all add: btree_set_max_def)

lemma btree_set_min_fields [simp]:
  "data_min_key (btree_set_min b q) = q"
  "data_max_key (btree_set_min b q) = data_max_key b"
  "k_p (key (btree_set_min b q)) = k_p (key b)"
  "k_type (key (btree_set_min b q)) = k_type (key b)"
  "level (btree_set_min b q) = level b"
  "sets (btree_set_min b q) = sets b"
  by (simp_all add: btree_set_min_def Let_def)

lemma alloc_node_fields [simp]:
  "level (bch2_btree_node_alloc_node x bid lvl b) = lvl"
  "btree_id (bch2_btree_node_alloc_node x bid lvl b) = bid"
  "sets (bch2_btree_node_alloc_node x bid lvl b) = [[]]"
  "key (bch2_btree_node_alloc_node x bid lvl b) = key b"
  "data_min_key (bch2_btree_node_alloc_node x bid lvl b) = data_min_key b"
  "data_max_key (bch2_btree_node_alloc_node x bid lvl b) = data_max_key b"
  "will_make_reachable (bch2_btree_node_alloc_node x bid lvl b) = will_make_reachable b"
  by (simp_all add: bch2_btree_node_alloc_node_def)

lemma interior_verify_off:
  "\<not> (CONFIG_BCACHEFS_DEBUG c \<and> replay_done) \<Longrightarrow> level b \<noteq> 0 \<Longrightarrow>
   btree_node_interior_verify c x replay_done b = Inr ()"
  by (auto simp: btree_node_interior_verify_def)

lemma btree_bset_first_updates [simp]:
  "btree_bset_first (b\<lparr>nr := x1\<rparr>) = btree_bset_first b"
  "btree_bset_first (b\<lparr>key := x2\<rparr>) = btree_bset_first b"
  "btree_bset_first (b\<lparr>flags := x3\<rparr>) = btree_bset_first b"
  "btree_bset_first (b\<lparr>sib_u64s := x4\<rparr>) = btree_bset_first b"
  "btree_bset_first (b\<lparr>data_min_key := x5\<rparr>) = btree_bset_first b"
  "btree_bset_first (b\<lparr>data_max_key := x6\<rparr>) = btree_bset_first b"
  "btree_bset_first (b\<lparr>data_format := x7\<rparr>) = btree_bset_first b"
  "btree_bset_first (b\<lparr>format := x8\<rparr>) = btree_bset_first b"
  "btree_bset_first (b\<lparr>data_seq := x9\<rparr>) = btree_bset_first b"
  "btree_bset_first (b\<lparr>will_make_reachable := x10\<rparr>) = btree_bset_first b"
  "btree_bset_first (b\<lparr>sets := ss\<rparr>) = (case ss of [] \<Rightarrow> [] | i # _ \<Rightarrow> i)"
  "btree_bset_first (btree_set_min b q) = btree_bset_first b"
  "btree_bset_first (btree_set_max b q) = btree_bset_first b"
  "btree_bset_first (bch2_btree_node_alloc_node x bid lvl b) = []"
  by (simp_all add: btree_bset_first_def btree_set_min_def btree_set_max_def Let_def
      bch2_btree_node_alloc_node_def)

lemma split_node_keys_Inr:
  assumes "split_node_keys c x replay_done n1 n2 = Inr (w1, w2)"
  shows "\<exists>front k rest.
           btree_bset_first n1 = front @ k # rest \<and> front \<noteq> [] \<and>
           btree_bset_first w1 = front \<and> btree_bset_first w2 = k # rest \<and>
           sets w2 = (case sets n2 of [] \<Rightarrow> [k # rest] | _ # r \<Rightarrow> (k # rest) # r) \<and>
           sets w1 = (case sets n1 of [] \<Rightarrow> [front] | _ # r \<Rightarrow> front # r) \<and>
           data_max_key w1 = k_p (last front) \<and> k_p (key w1) = k_p (last front) \<and>
           data_min_key w2 = bkey_successor x (k_p (last front)) \<and>
           data_min_key w1 = data_min_key n1 \<and> data_max_key w2 = data_max_key n1 \<and>
           k_p (key w2) = k_p (key n1) \<and> level w1 = level n1 \<and> level w2 = level n2 \<and>
           (level n1 \<noteq> 0 \<longrightarrow>
              btree_node_interior_verify c x replay_done w1 = Inr () \<and>
              btree_node_interior_verify c x replay_done w2 = Inr ()) \<and>
           (\<exists>k0 ks np nu. btree_bset_first n1 = k0 # ks \<and>
              split_walk (set_u64s (k0 # ks) * 3 div 5) 0 [] k0 ks 0 0 = (front, k, rest, np, nu))"
proof (cases "btree_bset_first n1")
  case Nil
  with assms show ?thesis by (simp add: split_node_keys_def)
next
  case (Cons k0 ks)
  obtain front k rest np nu where
    walk: "split_walk (set_u64s (k0 # ks) * 3 div 5) 0 [] k0 ks 0 0 = (front, k, rest, np, nu)"
    by (metis prod_cases5)
  have shape: "[] @ k0 # ks = front @ k # rest"
    using split_walk_shape [OF walk] by (simp add: set_u64s_Nil)
  from assms have ne: "front \<noteq> []"
    by (auto simp: split_node_keys_def Cons walk Let_def simp del: split_walk.simps)
  from assms ne have rest: "btree_bset_first w1 = front \<and> btree_bset_first w2 = k # rest \<and>
           sets w2 = (case sets n2 of [] \<Rightarrow> [k # rest] | _ # r \<Rightarrow> (k # rest) # r) \<and>
           sets w1 = (case sets n1 of [] \<Rightarrow> [front] | _ # r \<Rightarrow> front # r) \<and>
           data_max_key w1 = k_p (last front) \<and> k_p (key w1) = k_p (last front) \<and>
           data_min_key w2 = bkey_successor x (k_p (last front)) \<and>
           data_min_key w1 = data_min_key n1 \<and> data_max_key w2 = data_max_key n1 \<and>
           k_p (key w2) = k_p (key n1) \<and> level w1 = level n1 \<and> level w2 = level n2 \<and>
           (level n1 \<noteq> 0 \<longrightarrow>
              btree_node_interior_verify c x replay_done w1 = Inr () \<and>
              btree_node_interior_verify c x replay_done w2 = Inr ())"
    by (auto simp: split_node_keys_def Cons walk Let_def set_btree_bset_first_def
        btree_node_reset_sib_u64s_def
        simp del: split_walk.simps split: if_splits sum.splits list.splits)
  from shape Cons have "btree_bset_first n1 = front @ k # rest" by simp
  with ne rest walk Cons show ?thesis by blast
qed

lemma split_node_keys_result:
  assumes first: "btree_bset_first n1 = ks" and len: "2 \<le> length ks"
      and sizes: "\<forall>k\<in>set ks. 1 \<le> k_u64s k"
  shows "\<exists>w1 w2.
           split_node_keys (c\<lparr>CONFIG_BCACHEFS_DEBUG := False\<rparr>) x replay_done n1 n2 =
             Inr (w1, w2) \<and>
           split_node_keys c x replay_done n1 n2 =
             (if level n1 \<noteq> 0 then
                (case btree_node_interior_verify c x replay_done w1 of
                   Inl e \<Rightarrow> Inl e
                 | Inr _ \<Rightarrow>
                    (case btree_node_interior_verify c x replay_done w2 of
                       Inl e \<Rightarrow> Inl e
                     | Inr _ \<Rightarrow> Inr (w1, w2)))
              else Inr (w1, w2))"
proof -
  from len obtain k0 k1 ks' where ks: "ks = k0 # k1 # ks'"
    by (cases ks; cases "tl ks") auto
  define thr where "thr = (set_u64s ks * 3) div 5"
  have "2 \<le> set_u64s ks"
  proof -
    have "1 \<le> k_u64s k0" "1 \<le> k_u64s k1" using sizes by (auto simp: ks)
    then show ?thesis by (simp add: ks set_u64s_Cons)
  qed
  then have thr_pos: "0 < thr" unfolding thr_def by simp
  obtain front k rest np nu where
    walk: "split_walk thr 0 [] k0 (k1 # ks') 0 0 = (front, k, rest, np, nu)"
    by (metis prod_cases5)
  have shape: "[] @ k0 # k1 # ks' = front @ k # rest"
    using split_walk_shape [OF walk] by (simp add: set_u64s_Nil)
  have ne: "front \<noteq> []" by (rule split_walk_front_nonempty [OF walk thr_pos])
  have dec: "ks = front @ k # rest" using shape ks by simp
  have s1: "0 < set_u64s front"
    using ne sizes dec by (intro set_u64s_pos) auto
  have s2: "0 < set_u64s (k # rest)"
    using sizes dec by (intro set_u64s_pos) auto
  have tot: "set_u64s ks - set_u64s (k # rest) = set_u64s front"
    by (simp add: dec set_u64s_append)
  have walk': "split_walk (set_u64s (k0 # k1 # ks') * 3 div 5) 0 [] k0 (k1 # ks') 0 0 =
      (front, k, rest, np, nu)"
    using walk by (simp only: thr_def ks)
  have tot': "set_u64s (k0 # k1 # ks') - set_u64s (k # rest) = set_u64s front"
    using tot by (simp only: ks)
  have first': "btree_bset_first n1 = k0 # k1 # ks'"
    using first by (simp only: ks)
  have lt: "\<not> set_u64s (k0 # k1 # ks') \<le> set_u64s (k # rest)"
    using tot' s1 by linarith
  have off: "\<And>b.
      btree_node_interior_verify (c\<lparr>CONFIG_BCACHEFS_DEBUG := False\<rparr>) x replay_done b = Inr ()"
    by (simp add: btree_node_interior_verify_def)
  show ?thesis
    using ne s1 s2 lt off
    by (simp add: split_node_keys_def first' walk' tot' Let_def
        del: split_walk.simps split: sum.splits)
qed

lemma split_node_keys_returns:
  assumes first: "btree_bset_first n1 = ks" and len: "2 \<le> length ks"
      and sizes: "\<forall>k\<in>set ks. 1 \<le> k_u64s k"
      and off: "\<not> (CONFIG_BCACHEFS_DEBUG c \<and> replay_done \<and> level n1 \<noteq> 0)"
      and lv: "level n2 = level n1"
  shows "\<exists>w1 w2. split_node_keys c x replay_done n1 n2 = Inr (w1, w2)"
proof -
  from split_node_keys_result [OF first len sizes, of c x replay_done n2]
  obtain w1 w2 where
    r0: "split_node_keys (c\<lparr>CONFIG_BCACHEFS_DEBUG := False\<rparr>) x replay_done n1 n2 = Inr (w1, w2)"
    and r: "split_node_keys c x replay_done n1 n2 =
             (if level n1 \<noteq> 0 then
                (case btree_node_interior_verify c x replay_done w1 of
                   Inl e \<Rightarrow> Inl e
                 | Inr _ \<Rightarrow>
                    (case btree_node_interior_verify c x replay_done w2 of
                       Inl e \<Rightarrow> Inl e
                     | Inr _ \<Rightarrow> Inr (w1, w2)))
              else Inr (w1, w2))"
    by blast
  show ?thesis
  proof (cases "level n1 = 0")
    case True
    with r show ?thesis by simp
  next
    case False
    from split_node_keys_Inr [OF r0] lv have l: "level w1 = level n1" "level w2 = level n1"
      by auto
    from False off have o: "\<not> (CONFIG_BCACHEFS_DEBUG c \<and> replay_done)" by simp
    have "btree_node_interior_verify c x replay_done w1 = Inr ()"
         "btree_node_interior_verify c x replay_done w2 = Inr ()"
      using o l False by (simp_all add: interior_verify_off)
    with r False show ?thesis by simp
  qed
qed

lemma node_alloc_Inr:
  assumes "bch2_btree_node_alloc uc x s as lvl = Inr (b, s1)"
  shows "\<exists>u n. updates s as = Some u \<and> prealloc_nodes u \<noteq> [] \<and> b = last (prealloc_nodes u) \<and>
           nodes s b = Some n \<and> lvl < BTREE_MAX_DEPTH uc \<and>
           s1 = s\<lparr>updates := (updates s)(as \<mapsto> u\<lparr>prealloc_nodes := butlast (prealloc_nodes u)\<rparr>),
                  nodes := (nodes s)(b \<mapsto> bch2_btree_node_alloc_node x (as_btree_id u) lvl n)\<rparr>"
  using assms
  by (auto simp: bch2_btree_node_alloc_def Let_def split: if_splits option.splits)

lemma add_new_node_Inr:
  assumes "bch2_btree_update_add_new_node uc s as b = Inr s'"
  shows "\<exists>n. nodes s b = Some n \<and> will_make_reachable n = 0 \<and>
           nodes s' = (nodes s)(b \<mapsto> n\<lparr>will_make_reachable := 1 OR as\<rparr>)"
  using assms
  by (auto simp: bch2_btree_update_add_new_node_def Let_def
      split: if_splits option.splits sum.splits)

lemma btree_split_node_Inr:
  assumes split: "btree_split_node uc c x replay_done s as n1 = Inr (n2, s')"
      and n1: "nodes s n1 = Some b1"
  shows "n2 \<noteq> n1 \<and>
         (\<exists>w1 w2 front k rest.
           nodes s' n1 = Some w1 \<and> nodes s' n2 = Some w2 \<and>
           btree_bset_first b1 = front @ k # rest \<and> front \<noteq> [] \<and>
           btree_bset_first w1 = front \<and> btree_bset_first w2 = k # rest \<and>
           sets w2 = [k # rest] \<and>
           sets w1 = (case sets b1 of [] \<Rightarrow> [front] | _ # r \<Rightarrow> front # r) \<and>
           data_max_key w1 = k_p (last front) \<and> k_p (key w1) = k_p (last front) \<and>
           data_min_key w2 = bkey_successor x (k_p (last front)) \<and>
           data_min_key w1 = data_min_key b1 \<and> data_max_key w2 = data_max_key b1 \<and>
           k_p (key w2) = k_p (key b1) \<and> level w1 = level b1 \<and> level w2 = level b1 \<and>
           (level b1 \<noteq> 0 \<longrightarrow>
              btree_node_interior_verify c x replay_done w1 = Inr () \<and>
              btree_node_interior_verify c x replay_done w2 = Inr ()) \<and>
           (\<exists>k0 ks np nu. btree_bset_first b1 = k0 # ks \<and>
              split_walk (set_u64s (k0 # ks) * 3 div 5) 0 [] k0 ks 0 0 = (front, k, rest, np, nu)) \<and>
           (\<forall>r. r \<noteq> n1 \<and> r \<noteq> n2 \<longrightarrow> nodes s' r = nodes s r))"
proof -
  from split n1 obtain s1 s2 v1 v2 w1 w2 where
    a: "bch2_btree_node_alloc uc x s as (level b1) = Inr (n2, s1)" and
    d: "bch2_btree_update_add_new_node uc s1 as n2 = Inr s2" and
    v: "nodes s2 n1 = Some v1" "nodes s2 n2 = Some v2" and
    k: "split_node_keys c x replay_done v1 v2 = Inr (w1, w2)" and
    s': "s' = s2\<lparr>nodes := (nodes s2)(n1 \<mapsto> w1, n2 \<mapsto> w2)\<rparr>"
    by (auto simp: btree_split_node_def split: sum.splits option.splits prod.splits)
  from node_alloc_Inr [OF a] obtain u n where
    an0: "updates s as = Some u \<and> prealloc_nodes u \<noteq> [] \<and> n2 = last (prealloc_nodes u) \<and>
           nodes s n2 = Some n \<and> level b1 < BTREE_MAX_DEPTH uc \<and>
           s1 = s\<lparr>updates := (updates s)(as \<mapsto> u\<lparr>prealloc_nodes := butlast (prealloc_nodes u)\<rparr>),
                  nodes := (nodes s)(n2 \<mapsto> bch2_btree_node_alloc_node x (as_btree_id u) (level b1) n)\<rparr>"
    by blast
  then have an: "nodes s n2 = Some n"
        "nodes s1 = (nodes s)(n2 \<mapsto> bch2_btree_node_alloc_node x (as_btree_id u) (level b1) n)"
    by auto
  from add_new_node_Inr [OF d] an have
    n2v: "nodes s2 = (nodes s1)(n2 \<mapsto>
            (bch2_btree_node_alloc_node x (as_btree_id u) (level b1) n)
              \<lparr>will_make_reachable := 1 OR as\<rparr>)"
    by auto
  have v2: "v2 = (bch2_btree_node_alloc_node x (as_btree_id u) (level b1) n)
              \<lparr>will_make_reachable := 1 OR as\<rparr>"
    using v(2) n2v by simp
  have ne: "n2 \<noteq> n1"
  proof
    assume "n2 = n1"
    with v v2 have "btree_bset_first v1 = []" by simp
    with k show False by (simp add: split_node_keys_def)
  qed
  with v(1) n2v an n1 have v1: "v1 = b1" by simp
  have sv2: "sets v2 = [[]]" "level v2 = level b1" using v2 by simp_all
  have fr: "\<forall>r. r \<noteq> n1 \<and> r \<noteq> n2 \<longrightarrow> nodes s' r = nodes s r"
    using s' n2v an by simp
  from split_node_keys_Inr [OF k] obtain front k rest where
    f: "btree_bset_first v1 = front @ k # rest" "front \<noteq> []"
       "btree_bset_first w1 = front" "btree_bset_first w2 = k # rest"
       "sets w2 = (case sets v2 of [] \<Rightarrow> [k # rest] | _ # r \<Rightarrow> (k # rest) # r)"
       "sets w1 = (case sets v1 of [] \<Rightarrow> [front] | _ # r \<Rightarrow> front # r)"
       "data_max_key w1 = k_p (last front)" "k_p (key w1) = k_p (last front)"
       "data_min_key w2 = bkey_successor x (k_p (last front))"
       "data_min_key w1 = data_min_key v1" "data_max_key w2 = data_max_key v1"
       "k_p (key w2) = k_p (key v1)" "level w1 = level v1" "level w2 = level v2"
       "level v1 \<noteq> 0 \<longrightarrow>
              btree_node_interior_verify c x replay_done w1 = Inr () \<and>
              btree_node_interior_verify c x replay_done w2 = Inr ()"
       "\<exists>k0 ks np nu. btree_bset_first v1 = k0 # ks \<and>
              split_walk (set_u64s (k0 # ks) * 3 div 5) 0 [] k0 ks 0 0 = (front, k, rest, np, nu)"
    by blast
  have n: "nodes s' n1 = Some w1" "nodes s' n2 = Some w2" using s' ne by simp_all
  have sw: "sets w2 = [k # rest]" "level w2 = level b1" using f(5,14) sv2 by simp_all
  note g = f(1-4,6-13,15,16) [unfolded v1]
  from ne n g sw fr show ?thesis by blast
qed

lemma btree_split_node_returns:
  assumes n1: "nodes s n1 = Some b1" and first: "btree_bset_first b1 = ks"
      and len: "2 \<le> length ks" and sizes: "\<forall>k\<in>set ks. 1 \<le> k_u64s k"
      and a: "bch2_btree_node_alloc uc x s as (level b1) = Inr (n2, s1)" and ne: "n2 \<noteq> n1"
      and d: "bch2_btree_update_add_new_node uc s1 as n2 = Inr s2"
      and off: "\<not> (CONFIG_BCACHEFS_DEBUG c \<and> replay_done \<and> level b1 \<noteq> 0)"
  shows "\<exists>s'. btree_split_node uc c x replay_done s as n1 = Inr (n2, s')"
proof -
  from node_alloc_Inr [OF a] obtain u n where
    an0: "updates s as = Some u \<and> prealloc_nodes u \<noteq> [] \<and> n2 = last (prealloc_nodes u) \<and>
           nodes s n2 = Some n \<and> level b1 < BTREE_MAX_DEPTH uc \<and>
           s1 = s\<lparr>updates := (updates s)(as \<mapsto> u\<lparr>prealloc_nodes := butlast (prealloc_nodes u)\<rparr>),
                  nodes := (nodes s)(n2 \<mapsto> bch2_btree_node_alloc_node x (as_btree_id u) (level b1) n)\<rparr>"
    by blast
  then have an: "nodes s n2 = Some n"
        "nodes s1 = (nodes s)(n2 \<mapsto> bch2_btree_node_alloc_node x (as_btree_id u) (level b1) n)"
    by auto
  let ?v2 = "(bch2_btree_node_alloc_node x (as_btree_id u) (level b1) n)
              \<lparr>will_make_reachable := 1 OR as\<rparr>"
  from add_new_node_Inr [OF d] an have
    n2v: "nodes s2 = (nodes s1)(n2 \<mapsto> ?v2)"
    by auto
  have v: "nodes s2 n1 = Some b1" "nodes s2 n2 = Some ?v2"
    using n2v an n1 ne by simp_all
  have "level ?v2 = level b1" by simp
  from split_node_keys_returns [OF first len sizes off this, of x]
  obtain w1 w2 where "split_node_keys c x replay_done b1 ?v2 = Inr (w1, w2)" by blast
  then show ?thesis
    using n1 a d v by (simp add: btree_split_node_def)
qed

text \<open>
  C3, as amended. For a node whose first bset holds at least two keys (each of at least
  one u64), the walk of the split stops at a key \<open>k\<close> with a nonempty list \<open>front\<close> of keys
  in front of it: \<open>k\<close> is the last key of the bset or begins at a u64 offset of at least
  \<open>\<lfloor>3 * u64s / 5\<rfloor>\<close>, and the pivot, the last key of \<open>front\<close>, begins below that bound.
  When the split returns, it has kept \<open>front\<close> in \<open>n1\<close>, set \<open>n1.max_key\<close> to the position
  of the pivot and \<open>n2.min_key\<close> to its successor, and moved \<open>k\<close> and the keys behind
  it, that is exactly the keys after the pivot, into the single bset of \<open>n2\<close>, a node
  other than \<open>n1\<close>. The split returns whenever \<^verbatim>\<open>bch2_btree_node_alloc\<close> and
  \<^verbatim>\<open>bch2_btree_update_add_new_node\<close> return for a node other than \<open>n1\<close> and the debug
  check of an interior node is off.
\<close>

theorem btree_split_node_pivot:
  assumes n1: "nodes s n1 = Some b1" and first: "btree_bset_first b1 = ks"
      and len: "2 \<le> length ks" and sizes: "\<forall>k\<in>set ks. 1 \<le> k_u64s k"
  shows "\<exists>front k rest.
           ks = front @ k # rest \<and> front \<noteq> [] \<and>
           set_u64s (butlast front) < (set_u64s ks * 3) div 5 \<and>
           (rest = [] \<or> (set_u64s ks * 3) div 5 \<le> set_u64s front) \<and>
           (\<forall>n2 s'. btree_split_node uc c x replay_done s as n1 = Inr (n2, s') \<longrightarrow>
              n2 \<noteq> n1 \<and>
              (\<exists>w1 w2. nodes s' n1 = Some w1 \<and> nodes s' n2 = Some w2 \<and>
                 btree_bset_first w1 = front \<and> btree_bset_first w2 = k # rest \<and>
                 sets w2 = [k # rest] \<and>
                 data_max_key w1 = k_p (last front) \<and> k_p (key w1) = k_p (last front) \<and>
                 data_min_key w2 = bkey_successor x (k_p (last front)) \<and>
                 data_min_key w1 = data_min_key b1 \<and> data_max_key w2 = data_max_key b1)) \<and>
           (\<forall>n2 s1 s2. bch2_btree_node_alloc uc x s as (level b1) = Inr (n2, s1) \<and> n2 \<noteq> n1 \<and>
              bch2_btree_update_add_new_node uc s1 as n2 = Inr s2 \<and>
              \<not> (CONFIG_BCACHEFS_DEBUG c \<and> replay_done \<and> level b1 \<noteq> 0) \<longrightarrow>
              (\<exists>s'. btree_split_node uc c x replay_done s as n1 = Inr (n2, s')))"
proof -
  from len obtain k0 k1 ks' where ks: "ks = k0 # k1 # ks'"
    by (cases ks; cases "tl ks") auto
  define thr where "thr = (set_u64s ks * 3) div 5"
  have "2 \<le> set_u64s ks"
  proof -
    have "1 \<le> k_u64s k0" "1 \<le> k_u64s k1" using sizes by (auto simp: ks)
    then show ?thesis by (simp add: ks set_u64s_Cons)
  qed
  then have thr_pos: "0 < thr" unfolding thr_def by simp
  obtain front k rest np nu where
    walk: "split_walk thr 0 [] k0 (k1 # ks') 0 0 = (front, k, rest, np, nu)"
    by (metis prod_cases5)
  have shape: "[] @ k0 # k1 # ks' = front @ k # rest \<and>
         (\<exists>mid. front = [] @ mid) \<and>
         (rest = [] \<or> thr \<le> set_u64s front) \<and>
         (front \<noteq> [] \<longrightarrow> set_u64s (butlast front) < thr)"
    by (rule split_walk_shape [OF walk]) (simp add: set_u64s_Nil)
  have ne: "front \<noteq> []" by (rule split_walk_front_nonempty [OF walk thr_pos])
  have dec: "ks = front @ k # rest" using shape ks by simp
  have ret: "n2 \<noteq> n1 \<and>
              (\<exists>w1 w2. nodes s' n1 = Some w1 \<and> nodes s' n2 = Some w2 \<and>
                 btree_bset_first w1 = front \<and> btree_bset_first w2 = k # rest \<and>
                 sets w2 = [k # rest] \<and>
                 data_max_key w1 = k_p (last front) \<and> k_p (key w1) = k_p (last front) \<and>
                 data_min_key w2 = bkey_successor x (k_p (last front)) \<and>
                 data_min_key w1 = data_min_key b1 \<and> data_max_key w2 = data_max_key b1)"
    if r: "btree_split_node uc c x replay_done s as n1 = Inr (n2, s')" for n2 s'
  proof -
    from btree_split_node_Inr [OF r n1] obtain w1 w2 front' k' rest' where
      g: "n2 \<noteq> n1" "nodes s' n1 = Some w1" "nodes s' n2 = Some w2"
         "btree_bset_first w1 = front'" "btree_bset_first w2 = k' # rest'"
         "sets w2 = [k' # rest']"
         "data_max_key w1 = k_p (last front')" "k_p (key w1) = k_p (last front')"
         "data_min_key w2 = bkey_successor x (k_p (last front'))"
         "data_min_key w1 = data_min_key b1" "data_max_key w2 = data_max_key b1"
      and w: "\<exists>k0 ks np nu. btree_bset_first b1 = k0 # ks \<and>
              split_walk (set_u64s (k0 # ks) * 3 div 5) 0 [] k0 ks 0 0 =
                (front', k', rest', np, nu)"
      by blast
    from w first ks obtain np' nu' where
      "split_walk (set_u64s (k0 # k1 # ks') * 3 div 5) 0 [] k0 (k1 # ks') 0 0 =
         (front', k', rest', np', nu')"
      by auto
    with walk have "front' = front" "k' = k" "rest' = rest"
      by (simp_all only: thr_def ks prod.inject)
    with g show ?thesis by blast
  qed
  have tot: "\<exists>s'. btree_split_node uc c x replay_done s as n1 = Inr (n2, s')"
    if "bch2_btree_node_alloc uc x s as (level b1) = Inr (n2, s1) \<and> n2 \<noteq> n1 \<and>
        bch2_btree_update_add_new_node uc s1 as n2 = Inr s2 \<and>
        \<not> (CONFIG_BCACHEFS_DEBUG c \<and> replay_done \<and> level b1 \<noteq> 0)" for n2 s1 s2
    using btree_split_node_returns [OF n1 first len sizes, of uc x as n2 s1 s2 c replay_done] that
    by blast
  show ?thesis
    using dec ne shape ret tot unfolding thr_def by blast
qed

lemma n1_ex_first: "btree_bset_first n1_ex = [ptr_v2 0 10, ptr_v2 11 20, ptr_v2 21 30, ptr_v2 31 40, ptr_v2 41 50]"
  by (simp add: n1_ex_def btree_bset_first_def)

lemma ptr_v2_u64s [simp]: "k_u64s (ptr_v2 a b) = 1" "k_packed (ptr_v2 a b)"
  "k_type (ptr_v2 a b) = KEY_TYPE_btree_ptr_v2" "k_p (ptr_v2 a b) = pos b" "v_min_key (ptr_v2 a b) = pos a"
  by (simp_all add: ptr_v2_def)

lemma n1_ex_u64s: "set_u64s [ptr_v2 0 10, ptr_v2 11 20, ptr_v2 21 30, ptr_v2 31 40, ptr_v2 41 50] = 5"
  by (simp add: set_u64s_def)

lemma pos_eq [simp]: "a < 2 ^ 64 \<Longrightarrow> b < 2 ^ 64 \<Longrightarrow> (pos a = pos b) = (a = b)"
  by (simp add: pos_def word_of_nat_eq_iff take_bit_nat_eq_self)

lemma succ_pos [simp]: "example_successor (pos a) = pos (Suc a)"
  by (simp add: example_successor_def pos_def)

lemma split_fs_split:
  "btree_split_node example_update_consts c4_consts example_env True split_fs 64 1 =
     Inr (2, split_fs\<lparr>
       nodes := [1 \<mapsto> n1_ex\<lparr>
                    key := (ptr_v2 0 50)\<lparr>k_p := pos 30\<rparr>, data_max_key := pos 30,
                    nr := \<lparr>live_u64s = 3, bset_u64s = [3, 0, 0], packed_keys = 3,
                          unpacked_keys = 0\<rparr>,
                    sets := [[ptr_v2 0 10, ptr_v2 11 20, ptr_v2 21 30]]\<rparr>,
                 2 \<mapsto> example_node\<lparr>
                    flags := {BTREE_NODE_accessed, BTREE_NODE_dirty, BTREE_NODE_need_write},
                    key := (ptr_v2 0 50)\<lparr>k_p := pos 50, v_min_key := pos 31\<rparr>,
                    data_min_key := pos 31,
                    nr := \<lparr>live_u64s = 2, bset_u64s = [2, 0, 0], packed_keys = 2,
                          unpacked_keys = 0\<rparr>,
                    sets := [[ptr_v2 31 40, ptr_v2 41 50]],
                    will_make_reachable := 65\<rparr>],
       updates := [64 \<mapsto> example_update\<lparr>cl_remaining := 1, new_nodes := [2],
                      new_keys := [ptr_v2 0 50]\<rparr>]\<rparr>)"
  by (simp add: btree_split_node_def bch2_btree_node_alloc_def bch2_btree_update_add_new_node_def
      btree_update_will_add_key_def keylist_u64s_def closure_get_def
      split_node_keys_def split_fs_def example_fs_def example_update_def
      example_update_consts_def example_env_def n1_ex_def example_node_def Let_def set_u64s_def
      btree_node_interior_verify_def bkey_whiteout_def bkey_deleted_def c4_consts_def
      set_btree_bset_first_def btree_node_reset_sib_u64s_def btree_set_min_def btree_set_max_def
      bch2_btree_node_alloc_node_def btree_bset_first_def fun_upd_twist)

text \<open>
  C3 as stated fails: in a bset of five keys of one u64 each the bound is 3, the first
  key past it is the fourth key (position 40); the split sets \<open>n1.max_key\<close> to the
  position of the third key (30) and moves the fourth key into \<open>n2\<close>.
\<close>

theorem btree_split_node_pivot_counterexample:
  "spec_pivot (btree_bset_first n1_ex) = Some (ptr_v2 31 40) \<and>
   nodes split_fs 1 = Some n1_ex \<and>
   \<not> isl (btree_split_node example_update_consts c4_consts example_env True split_fs 64 1) \<and>
   map_option data_max_key (nodes (snd (projr
      (btree_split_node example_update_consts c4_consts example_env True split_fs 64 1))) 1) =
     Some (pos 30) \<and>
   pos 30 \<noteq> k_p (ptr_v2 31 40) \<and>
   map_option btree_bset_first (nodes (snd (projr
      (btree_split_node example_update_consts c4_consts example_env True split_fs 64 1))) 2) =
     Some [ptr_v2 31 40, ptr_v2 41 50]"
proof -
  have sp: "spec_pivot (btree_bset_first n1_ex) = Some (ptr_v2 31 40)"
    by (simp add: spec_pivot_def n1_ex_first n1_ex_u64s)
  have n: "nodes split_fs 1 = Some n1_ex" by (simp add: split_fs_def)
  show ?thesis
    unfolding split_fs_split using sp n by (simp add: btree_bset_first_def)
qed

theorem btree_split_node_pivot_witness:
  "nodes split_fs 1 = Some n1_ex \<and> 2 \<le> length (btree_bset_first n1_ex) \<and>
   (\<exists>front k rest s' w1 w2.
      btree_bset_first n1_ex = front @ k # rest \<and> front \<noteq> [] \<and>
      btree_split_node example_update_consts c4_consts example_env True split_fs 64 1 =
        Inr (2, s') \<and>
      nodes s' 1 = Some w1 \<and> nodes s' 2 = Some w2 \<and>
      btree_bset_first w1 = front \<and> btree_bset_first w2 = k # rest \<and>
      data_max_key w1 = k_p (last front) \<and>
      data_min_key w2 = example_successor (k_p (last front)))"
proof -
  have n: "nodes split_fs 1 = Some n1_ex" by (simp add: split_fs_def)
  have len: "2 \<le> length (btree_bset_first n1_ex)"
    by (simp add: n1_ex_first)
  have sizes: "\<forall>k\<in>set (btree_bset_first n1_ex). 1 \<le> k_u64s k"
    by (simp add: n1_ex_first)
  have succ: "bkey_successor example_env = example_successor" by (simp add: example_env_def)
  obtain s' where r: "btree_split_node example_update_consts c4_consts example_env True
      split_fs 64 1 = Inr (2, s')"
    using split_fs_split by blast
  from btree_split_node_pivot [OF n refl len sizes,
      of example_update_consts c4_consts example_env True 64]
  obtain front k rest where
    d: "btree_bset_first n1_ex = front @ k # rest" "front \<noteq> []" and
    i: "\<forall>n2 s'. btree_split_node example_update_consts c4_consts example_env True split_fs 64 1 =
              Inr (n2, s') \<longrightarrow>
              n2 \<noteq> 1 \<and>
              (\<exists>w1 w2. nodes s' 1 = Some w1 \<and> nodes s' n2 = Some w2 \<and>
                 btree_bset_first w1 = front \<and> btree_bset_first w2 = k # rest \<and>
                 sets w2 = [k # rest] \<and>
                 data_max_key w1 = k_p (last front) \<and> k_p (key w1) = k_p (last front) \<and>
                 data_min_key w2 = bkey_successor example_env (k_p (last front)) \<and>
                 data_min_key w1 = data_min_key n1_ex \<and> data_max_key w2 = data_max_key n1_ex)"
    by blast
  from i r obtain w1 w2 where
    "nodes s' 1 = Some w1" "nodes s' 2 = Some w2"
    "btree_bset_first w1 = front" "btree_bset_first w2 = k # rest"
    "data_max_key w1 = k_p (last front)"
    "data_min_key w2 = example_successor (k_p (last front))"
    unfolding succ by blast
  with n len d r show ?thesis by blast
qed

subsection \<open>Splitting: no whiteout at the pivot\<close>

lemma compact_deleted_filter:
  "compact_deleted dst ks = dst @ filter (\<lambda>k. \<not> bkey_deleted k) ks"
  by (induction ks arbitrary: dst) auto

lemma sort_into_first:
  "btree_bset_first (bch2_btree_sort_into x dst src) =
     btree_bset_first dst @ filter (\<lambda>k. \<not> bkey_whiteout k) (node_iter_keys x src)"
  by (simp add: bch2_btree_sort_into_def Let_def)

lemma replacement_format_first:
  "btree_bset_first n0 = [] \<Longrightarrow>
   btree_bset_first (btree_node_alloc_replacement_format x n0 b fmt) =
     filter (\<lambda>k. \<not> bkey_whiteout k) (node_iter_keys x b)"
  by (simp add: btree_node_alloc_replacement_format_def Let_def sort_into_first
      btree_node_reset_sib_u64s_def)

lemma alloc_replacement_Inr:
  assumes "bch2_btree_node_alloc_replacement uc c x s as b new_f = Inr (n, s')"
  shows "\<exists>v. nodes s' n = Some v \<and> (\<forall>k\<in>set (btree_bset_first v). \<not> bkey_whiteout k)"
proof -
  from assms obtain s1 n0 b1 fmt lvl where
    a: "bch2_btree_node_alloc uc x s as lvl = Inr (n, s1)" and
    v: "nodes s1 n = Some n0" and
    s': "s' = s1\<lparr>nodes := (nodes s1)(n \<mapsto> btree_node_alloc_replacement_format x n0 b1 fmt)\<rparr>"
    by (auto simp: bch2_btree_node_alloc_replacement_def Let_def
        split: sum.splits option.splits prod.splits)
  from node_alloc_Inr [OF a] v have "btree_bset_first n0 = []" by auto
  from replacement_format_first [OF this] s' show ?thesis by simp
qed

lemma add_new_node_first:
  assumes "bch2_btree_update_add_new_node uc s as b = Inr s'" and "nodes s r = Some v"
  shows "\<exists>v'. nodes s' r = Some v' \<and> btree_bset_first v' = btree_bset_first v"
  using add_new_node_Inr [OF assms(1)] assms(2) by (cases "r = b") auto

lemma split_insert_keys_first:
  assumes "btree_split_insert_keys uc c x replay_done s as b keys = Inr s'"
  shows "\<exists>v. nodes s' b = Some v \<and> (\<forall>k\<in>set (btree_bset_first v). \<not> bkey_deleted k)"
  using assms
  by (auto simp: btree_split_insert_keys_def Let_def compact_deleted_filter
      split: if_splits sum.splits option.splits)

text \<open>
  C5. Whenever \<^verbatim>\<open>btree_split\<close> splits the node it has just built, with or without keys
  to insert first, the first bset of \<open>n1\<close> is not empty, its last key lies at
  \<open>n1.max_key\<close> and none of its keys is a whiteout: the replacement is built from the
  live keys only, and after keys were inserted the deleted keys are compacted out before
  the pivot is chosen.
\<close>

theorem btree_split_pivot_not_deleted:
  assumes "btree_split_nodes uc c x replay_done s as b new_f keys = Inr ((n1, Some n2), s')"
  shows "\<exists>w1. nodes s' n1 = Some w1 \<and>
           btree_bset_first w1 \<noteq> [] \<and>
           k_p (last (btree_bset_first w1)) = data_max_key w1 \<and>
           (\<forall>k\<in>set (btree_bset_first w1). \<not> bkey_whiteout k)"
proof -
  from assms obtain s1 s2 s3 v1 where
    r: "bch2_btree_node_alloc_replacement uc c x s as b new_f = Inr (n1, s1)"
    and d: "bch2_btree_update_add_new_node uc s1 as n1 = Inr s2"
    and a: "(case keys of None \<Rightarrow> Inr s2
             | Some ks \<Rightarrow> btree_split_insert_keys uc c x replay_done s2 as n1 ks) = Inr s3"
    and v: "nodes s3 n1 = Some v1"
    and sp: "btree_split_node uc c x replay_done s3 as n1 = Inr (n2, s')"
    by (auto simp: btree_split_nodes_def split: sum.splits if_splits option.splits prod.splits)
  have live: "\<forall>k\<in>set (btree_bset_first v1). \<not> bkey_deleted k"
  proof (cases keys)
    case None
    with a have e: "s3 = s2" by simp
    from alloc_replacement_Inr [OF r] obtain v0 where
      v0: "nodes s1 n1 = Some v0" "\<forall>k\<in>set (btree_bset_first v0). \<not> bkey_whiteout k"
      by blast
    from add_new_node_first [OF d v0(1)] v e have "btree_bset_first v1 = btree_bset_first v0"
      by auto
    with v0(2) show ?thesis by (simp add: bkey_whiteout_def)
  next
    case (Some ks)
    with a v show ?thesis by (auto dest: split_insert_keys_first)
  qed
  from btree_split_node_Inr [OF sp v] obtain w1 front k rest where
    "nodes s' n1 = Some w1" "btree_bset_first v1 = front @ k # rest" "front \<noteq> []"
    "btree_bset_first w1 = front" "data_max_key w1 = k_p (last front)"
    by blast
  with live show ?thesis by (auto simp: bkey_whiteout_def)
qed

theorem btree_split_pivot_not_deleted_witness:
  "\<exists>s'. btree_split_nodes example_update_consts c5_consts example_env True replace_fs 64 1
           (c4_format 2) (Some [deleted_key 5]) = Inr ((2, Some 3), s') \<and>
         map_option btree_bset_first (nodes s' 2) =
           Some [ptr_v2 0 10, ptr_v2 11 20, ptr_v2 21 30] \<and>
         map_option data_max_key (nodes s' 2) = Some (pos 30)"
proof -
  let ?res = "btree_split_nodes example_update_consts c5_consts example_env True replace_fs 64 1
     (c4_format 2) (Some [deleted_key 5])"
  have e: "\<not> isl ?res \<and> fst (projr ?res) = (2, Some 3) \<and>
      map_option btree_bset_first (nodes (snd (projr ?res)) 2) =
        Some [ptr_v2 0 10, ptr_v2 11 20, ptr_v2 21 30]"
    by (simp add: btree_split_nodes_def bch2_btree_node_alloc_replacement_def
        bch2_btree_node_format_fits_def btree_node_u64s_with_format_def format_delta_def
        btree_node_alloc_replacement_format_def bch2_btree_sort_into_def
        btree_split_insert_keys_def bch2_insert_fixup_btree_ptr_def journal_u64s_def
        example_insert_def
        vstruct_bytes_btree_node_def c5_consts_def c4_format_def deleted_key_def
        btree_split_node_def bch2_btree_node_alloc_def bch2_btree_update_add_new_node_def
        btree_update_will_add_key_def keylist_u64s_def closure_get_def
        split_node_keys_def replace_fs_def example_fs_def example_update_def
        example_update_consts_def example_env_def b_ex_def example_node_def Let_def set_u64s_def
        btree_node_interior_verify_def bkey_whiteout_def bkey_deleted_def c4_consts_def
        set_btree_bset_first_def btree_node_reset_sib_u64s_def btree_set_min_def btree_set_max_def
        bch2_btree_node_alloc_node_def btree_bset_first_def)
  then obtain s' where r: "?res = Inr ((2, Some 3), s')"
    by (cases ?res) auto
  from btree_split_pivot_not_deleted [OF r] obtain w1 where
    "nodes s' 2 = Some w1" "k_p (last (btree_bset_first w1)) = data_max_key w1"
    by blast
  with r e show ?thesis by auto
qed

subsection \<open>Reparenting the updates blocked on a node that is freed\<close>

lemma btree_update_reparent_Inr:
  assumes "btree_update_reparent s as child = Inr s'" and "child \<noteq> as"
  shows "\<exists>ch u. updates s child = Some ch \<and> updates s as = Some u \<and>
           s' = s\<lparr>updates := (updates s)
                  (child \<mapsto> ch\<lparr>as_b := None, mode := BTREE_INTERIOR_UPDATING_AS, journal := None\<rparr>,
                   as \<mapsto> u\<lparr>journal := bch2_journal_pin_copy (journal u) (journal ch)\<rparr>)\<rparr>"
  using assms
  by (auto simp: btree_update_reparent_def Let_def bch2_journal_pin_drop_def fun_upd_twist
      split: option.splits)

lemma reparent_write_blocked_updates:
  assumes "reparent_write_blocked s as b ps = Inr s'" and "as \<notin> set ps" and "distinct ps"
  shows "(\<forall>p\<in>set ps. \<exists>ch. updates s p = Some ch \<and>
            updates s' p = Some (ch\<lparr>as_b := None, mode := BTREE_INTERIOR_UPDATING_AS, journal := None\<rparr>)) \<and>
         (ps \<noteq> [] \<longrightarrow> (\<exists>u. updates s as = Some u)) \<and>
         updates s' as = map_option (\<lambda>u. u\<lparr>journal :=
            foldl bch2_journal_pin_copy (journal u) (map (\<lambda>p. journal (the (updates s p))) ps)\<rparr>)
              (updates s as) \<and>
         (\<forall>q. q \<noteq> as \<and> q \<notin> set ps \<longrightarrow> updates s' q = updates s q) \<and>
         nodes s' = (nodes s)(b := map_option
            (\<lambda>n. n\<lparr>write_blocked := foldl (\<lambda>l p. remove1 p l) (write_blocked n) ps\<rparr>) (nodes s b))"
  using assms
proof (induction ps arbitrary: s)
  case Nil
  then show ?case by (cases "updates s as"; cases "nodes s b") auto
next
  case (Cons p ps)
  let ?s1 = "node_upd s b (\<lambda>n. n\<lparr>write_blocked := remove1 p (write_blocked n)\<rparr>)"
  from Cons.prems obtain s2 where
    r: "btree_update_reparent ?s1 as p = Inr s2" and
    rest: "reparent_write_blocked s2 as b ps = Inr s'"
    by (auto simp: Let_def split: sum.splits)
  from Cons.prems have pa: "p \<noteq> as" "as \<notin> set ps" "distinct ps" "p \<notin> set ps" by auto
  from btree_update_reparent_Inr [OF r pa(1)] obtain ch u where
    ch: "updates s p = Some ch" and u: "updates s as = Some u" and
    s2: "s2 = ?s1\<lparr>updates := (updates ?s1)
                  (p \<mapsto> ch\<lparr>as_b := None, mode := BTREE_INTERIOR_UPDATING_AS, journal := None\<rparr>,
                   as \<mapsto> u\<lparr>journal := bch2_journal_pin_copy (journal u) (journal ch)\<rparr>)\<rparr>"
    by (auto simp: node_upd_def)
  have u2: "updates s2 = (updates s)
                  (p \<mapsto> ch\<lparr>as_b := None, mode := BTREE_INTERIOR_UPDATING_AS, journal := None\<rparr>,
                   as \<mapsto> u\<lparr>journal := bch2_journal_pin_copy (journal u) (journal ch)\<rparr>)"
    by (simp add: s2 node_upd_def)
  have n2: "nodes s2 = (nodes s)(b := map_option
      (\<lambda>n. n\<lparr>write_blocked := remove1 p (write_blocked n)\<rparr>) (nodes s b))"
    by (simp add: s2 node_upd_def)
  note IH = Cons.IH [OF rest pa(2) pa(3)]
  have same: "\<And>q. q \<in> set ps \<Longrightarrow> updates s2 q = updates s q"
    using pa by (auto simp: u2)
  have m: "map (\<lambda>p. journal (the (updates s2 p))) ps = map (\<lambda>p. journal (the (updates s p))) ps"
    using same by (intro map_cong) auto
  show ?case
  proof (intro conjI)
    show "\<forall>q\<in>set (p # ps). \<exists>ch. updates s q = Some ch \<and>
            updates s' q = Some (ch\<lparr>as_b := None, mode := BTREE_INTERIOR_UPDATING_AS, journal := None\<rparr>)"
    proof
      fix q assume "q \<in> set (p # ps)"
      then consider "q = p" | "q \<in> set ps" by auto
      then show "\<exists>ch. updates s q = Some ch \<and>
            updates s' q = Some (ch\<lparr>as_b := None, mode := BTREE_INTERIOR_UPDATING_AS, journal := None\<rparr>)"
      proof cases
        case 1
        from IH have "updates s' p = updates s2 p" using pa by blast
        then show ?thesis using 1 ch pa by (simp add: u2)
      next
        case 2
        with IH same show ?thesis by force
      qed
    qed
  next
    show "p # ps \<noteq> [] \<longrightarrow> (\<exists>u. updates s as = Some u)" using u by simp
  next
    from IH have "updates s' as = map_option (\<lambda>u. u\<lparr>journal :=
            foldl bch2_journal_pin_copy (journal u) (map (\<lambda>p. journal (the (updates s2 p))) ps)\<rparr>)
              (updates s2 as)" by blast
    then have "updates s' as = map_option (\<lambda>u. u\<lparr>journal :=
            foldl bch2_journal_pin_copy (journal u) (map (\<lambda>p. journal (the (updates s p))) ps)\<rparr>)
              (updates s2 as)" by (simp only: m)
    moreover have "updates s2 as =
        Some (u\<lparr>journal := bch2_journal_pin_copy (journal u) (journal ch)\<rparr>)"
      by (simp add: u2)
    ultimately show "updates s' as = map_option (\<lambda>u. u\<lparr>journal :=
            foldl bch2_journal_pin_copy (journal u) (map (\<lambda>p. journal (the (updates s p))) (p # ps))\<rparr>)
              (updates s as)"
      by (simp add: u ch)
  next
    show "\<forall>q. q \<noteq> as \<and> q \<notin> set (p # ps) \<longrightarrow> updates s' q = updates s q"
      using IH by (auto simp: u2)
  next
    from IH have "nodes s' = (nodes s2)(b := map_option
            (\<lambda>n. n\<lparr>write_blocked := foldl (\<lambda>l p. remove1 p l) (write_blocked n) ps\<rparr>) (nodes s2 b))"
      by blast
    then show "nodes s' = (nodes s)(b := map_option
            (\<lambda>n. n\<lparr>write_blocked := foldl (\<lambda>l p. remove1 p l) (write_blocked n) (p # ps)\<rparr>) (nodes s b))"
      by (cases "nodes s b") (auto simp: n2)
  qed
qed

lemma node_upd_simps [simp]:
  "updates (node_upd s r f) = updates s"
  "nodes (node_upd s r f) = (nodes s)(r := map_option f (nodes s r))"
  by (simp_all add: node_upd_def)

lemma transfer_write_pin_Inr:
  assumes "transfer_write_pin s as b cur = Inr s'"
  shows "\<exists>u n. updates s as = Some u \<and> nodes s b = Some n \<and>
           updates s' = (updates s)(as \<mapsto> u\<lparr>journal := bch2_journal_pin_copy (journal u)
                            (if cur then fst (writes n) else snd (writes n))\<rparr>) \<and>
           nodes s' = (nodes s)(b \<mapsto> n\<lparr>writes :=
              (if cur then (None, snd (writes n)) else (fst (writes n), None))\<rparr>)"
  using assms
  by (cases cur)
     (auto simp: transfer_write_pin_def Let_def bch2_journal_pin_drop_def split: option.splits)

lemma drop_new_node_links:
  assumes "btree_update_drop_new_node s b = Inr s'"
  shows "links_kept s s'"
  using assms
  by (auto simp: btree_update_drop_new_node_def links_kept_def Let_def closure_put_def
      split: option.splits if_splits)

lemma foldl_remove1_all: "distinct ps \<Longrightarrow> foldl (\<lambda>l p. remove1 p l) (ps @ xs) ps = xs"
proof (induction ps arbitrary: xs)
  case Nil
  then show ?case by simp
next
  case (Cons p ps)
  then show ?case by simp
qed

lemma pin_copy_le:
  "bch2_journal_pin_copy d (Some q) = Some m \<Longrightarrow> m \<le> q"
  by (auto simp: bch2_journal_pin_copy_def split: option.splits if_splits)

lemma pin_copy_mono:
  "\<exists>m'. bch2_journal_pin_copy (Some m) x = Some m' \<and> m' \<le> m"
  by (auto simp: bch2_journal_pin_copy_def split: option.splits)

lemma foldl_pin_copy_Some:
  "\<exists>m'. foldl bch2_journal_pin_copy (Some m) xs = Some m' \<and> m' \<le> m"
proof (induction xs arbitrary: m)
  case Nil
  then show ?case by simp
next
  case (Cons x xs)
  from pin_copy_mono [of m x] obtain m1 where
    m1: "bch2_journal_pin_copy (Some m) x = Some m1" "m1 \<le> m" by blast
  from Cons.IH [of m1] obtain m2 where
    "foldl bch2_journal_pin_copy (Some m1) xs = Some m2" "m2 \<le> m1" by blast
  with m1 show ?case by auto
qed

lemma foldl_pin_copy_oldest:
  assumes "Some q \<in> set xs"
  shows "\<exists>m. foldl bch2_journal_pin_copy d xs = Some m \<and> m \<le> q"
  using assms
proof (induction xs arbitrary: d)
  case Nil
  then show ?case by simp
next
  case (Cons x xs)
  show ?case
  proof (cases "x = Some q")
    case True
    have "\<exists>m1. bch2_journal_pin_copy d (Some q) = Some m1"
      by (cases d) (simp_all add: bch2_journal_pin_copy_def)
    then obtain m1 where m1: "bch2_journal_pin_copy d (Some q) = Some m1" ..
    then have "m1 \<le> q" by (rule pin_copy_le)
    moreover from foldl_pin_copy_Some [of m1 xs] obtain m2 where
      "foldl bch2_journal_pin_copy (Some m1) xs = Some m2" "m2 \<le> m1" by blast
    ultimately show ?thesis using True m1 by auto
  next
    case False
    with Cons.prems have "Some q \<in> set xs" by simp
    from Cons.IH [OF this] show ?thesis by simp
  qed
qed

text \<open>
  C6. When update \<open>as\<close> calls \<^verbatim>\<open>will_free_node(b)\<close> on a node that is not a fake root
  (for a fake root the function returns at once; fake roots are leaves and carry no
  write-blocked updates), every update \<open>p\<close> on \<open>b\<close>'s write-blocked list ends with
  mode \<open>UPDATING_AS\<close>, no parent node and no journal pin, the list of \<open>b\<close> is empty, and
  the pin of \<open>as\<close> is its old pin with the pins of all those updates and of the two
  writes of \<open>b\<close> copied onto it, oldest wins: it is at most every pin that a reparented
  update held.
\<close>

theorem will_free_node_reparents:
  assumes ok: "bch2_btree_interior_update_will_free_node uc s as b = Inr s'"
      and n: "nodes s b = Some n" and nf: "BTREE_NODE_fake \<notin> flags n"
      and d: "distinct (write_blocked n)" and a: "as \<notin> set (write_blocked n)"
  shows "(\<forall>p\<in>set (write_blocked n). \<exists>ch ch'.
            updates s p = Some ch \<and> updates s' p = Some ch' \<and>
            mode ch' = BTREE_INTERIOR_UPDATING_AS \<and> as_b ch' = None \<and> journal ch' = None) \<and>
         (\<exists>n'. nodes s' b = Some n' \<and> write_blocked n' = []) \<and>
         (\<exists>u u'. updates s as = Some u \<and> updates s' as = Some u' \<and>
            journal u' = foldl bch2_journal_pin_copy (journal u)
               (map (\<lambda>p. journal (the (updates s p))) (write_blocked n) @
                [fst (writes n), snd (writes n)]) \<and>
            (\<forall>p\<in>set (write_blocked n). \<forall>q. journal (the (updates s p)) = Some q \<longrightarrow>
               (\<exists>m. journal u' = Some m \<and> m \<le> q)))"
proof -
  let ?ps = "write_blocked n"
  let ?s0 = "node_upd s b (\<lambda>n. n\<lparr>flags := flags n \<union> {BTREE_NODE_dying}\<rparr>)"
  from ok n nf obtain s1 s3 s4 s5 u5 n5 u6 where
    l: "reparent_write_blocked ?s0 as b ?ps = Inr s1" and
    t1: "transfer_write_pin (node_upd s1 b
            (\<lambda>n. n\<lparr>flags := flags n - {BTREE_NODE_dirty, BTREE_NODE_need_write}\<rparr>)) as b True = Inr s3" and
    t2: "transfer_write_pin s3 as b False = Inr s4" and
    dr: "btree_update_drop_new_node s4 b = Inr s5" and
    u5: "updates s5 as = Some u5" and n5: "nodes s5 b = Some n5" and
    wd: "btree_update_will_delete_key uc u5 (key n5) = Inr u6" and
    s': "s' = s5\<lparr>updates := (updates s5)(as \<mapsto> u6)\<rparr>"
    by (auto simp: bch2_btree_interior_update_will_free_node_def Let_def
        split: sum.splits option.splits)
  note L = reparent_write_blocked_updates [OF l a d]
  have u6: "mode u6 = mode u5" "as_b u6 = as_b u5" "journal u6 = journal u5"
    using wd by (auto simp: btree_update_will_delete_key_def split: if_splits)
  define w3 :: "journal_entry_pin \<times> journal_entry_pin" where "w3 = (None, snd (writes n))"
  from transfer_write_pin_Inr [OF t1] obtain u2 n2 where
    u2: "updates s1 as = Some u2" and
    n2: "nodes s1 b = Some n2" and
    us3: "updates s3 = (updates s1)(as \<mapsto> u2\<lparr>journal := bch2_journal_pin_copy (journal u2)
                            (fst (writes (n2\<lparr>flags := flags n2 - {BTREE_NODE_dirty, BTREE_NODE_need_write}\<rparr>)))\<rparr>)" and
    ns3': "nodes s3 = (nodes s1)(b \<mapsto> n2\<lparr>flags := flags n2 - {BTREE_NODE_dirty, BTREE_NODE_need_write},
                                          writes := (None, snd (writes n2))\<rparr>)"
    by auto
  from L n have n2_eq: "n2 = n\<lparr>flags := flags n \<union> {BTREE_NODE_dying},
       write_blocked := foldl (\<lambda>l p. remove1 p l) ?ps ?ps\<rparr>"
    using n2 by auto
  have wb: "foldl (\<lambda>l p. remove1 p l) ?ps ?ps = []"
    using foldl_remove1_all [OF d, of "[]"] by simp
  from transfer_write_pin_Inr [OF t2] obtain u3 n3 where
    u3: "updates s3 as = Some u3" and
    n3: "nodes s3 b = Some n3" and
    us4: "updates s4 = (updates s3)(as \<mapsto> u3\<lparr>journal := bch2_journal_pin_copy (journal u3)
                            (snd (writes n3))\<rparr>)" and
    ns4: "nodes s4 = (nodes s3)(b \<mapsto> n3\<lparr>writes := (fst (writes n3), None)\<rparr>)"
    by auto
  note K = drop_new_node_links [OF dr, unfolded links_kept_def]
  obtain u where u: "updates s as = Some u"
    using L u2 by (cases "updates s as") auto
  have ju2: "journal u2 = foldl bch2_journal_pin_copy (journal u)
        (map (\<lambda>p. journal (the (updates s p))) ?ps)"
    using L u u2 by auto
  have w1: "fst (writes (n2\<lparr>flags := flags n2 - {BTREE_NODE_dirty, BTREE_NODE_need_write}\<rparr>))
      = fst (writes n)"
    by (simp add: n2_eq)
  have u3_eq: "u3 = u2\<lparr>journal := bch2_journal_pin_copy (journal u2) (fst (writes n))\<rparr>"
    using u3 us3 w1 by simp
  have w3: "snd w3 = snd (writes n)" by (simp add: w3_def)
  have ns3: "nodes s3 = (nodes s1)(b \<mapsto> n2\<lparr>flags := flags n2 - {BTREE_NODE_dirty, BTREE_NODE_need_write},
                                          writes := w3\<rparr>)"
    by (simp add: ns3' w3_def n2_eq)
  have n3_eq: "snd (writes n3) = snd (writes n)" "write_blocked n3 = []"
    using n3 ns3 w3 by (auto simp: n2_eq wb)
  have ju4: "\<exists>u4. updates s4 as = Some u4 \<and> journal u4 =
      foldl bch2_journal_pin_copy (journal u)
        (map (\<lambda>p. journal (the (updates s p))) ?ps @ [fst (writes n), snd (writes n)])"
    by (simp add: us4 u3_eq ju2 n3_eq)
  then obtain u4 where u4: "updates s4 as = Some u4" "journal u4 =
      foldl bch2_journal_pin_copy (journal u)
        (map (\<lambda>p. journal (the (updates s p))) ?ps @ [fst (writes n), snd (writes n)])"
    by blast
  from K u4 u5 have ju5: "journal u5 = journal u4" by force
  have part3: "\<exists>u u'. updates s as = Some u \<and> updates s' as = Some u' \<and>
            journal u' = foldl bch2_journal_pin_copy (journal u)
               (map (\<lambda>p. journal (the (updates s p))) ?ps @
                [fst (writes n), snd (writes n)]) \<and>
            (\<forall>p\<in>set ?ps. \<forall>q. journal (the (updates s p)) = Some q \<longrightarrow>
               (\<exists>m. journal u' = Some m \<and> m \<le> q))"
  proof -
    have j6: "journal u6 = foldl bch2_journal_pin_copy (journal u)
               (map (\<lambda>p. journal (the (updates s p))) ?ps @ [fst (writes n), snd (writes n)])"
      by (simp add: u6 ju5 u4)
    have old: "\<forall>p\<in>set ?ps. \<forall>q. journal (the (updates s p)) = Some q \<longrightarrow>
               (\<exists>m. journal u6 = Some m \<and> m \<le> q)"
    proof (intro ballI allI impI)
      fix p q assume "p \<in> set ?ps" "journal (the (updates s p)) = Some q"
      then have "Some q \<in> set (map (\<lambda>p. journal (the (updates s p))) ?ps @
          [fst (writes n), snd (writes n)])"
        by force
      from foldl_pin_copy_oldest [OF this, of "journal u"] j6
      show "\<exists>m. journal u6 = Some m \<and> m \<le> q" by simp
    qed
    have "updates s' as = Some u6" by (simp add: s')
    with u j6 old show ?thesis by blast
  qed
  have n4: "\<exists>n4. nodes s4 b = Some n4 \<and> write_blocked n4 = []"
    using ns4 n3 n3_eq by simp
  then obtain n4 where "nodes s4 b = Some n4" "write_blocked n4 = []" by blast
  with K have part2: "\<exists>n'. nodes s' b = Some n' \<and> write_blocked n' = []"
    by (force simp: s')
  have part1: "\<forall>p\<in>set ?ps. \<exists>ch ch'.
            updates s p = Some ch \<and> updates s' p = Some ch' \<and>
            mode ch' = BTREE_INTERIOR_UPDATING_AS \<and> as_b ch' = None \<and> journal ch' = None"
  proof
    fix p assume p: "p \<in> set ?ps"
    with a have pa: "p \<noteq> as" by auto
    from L p obtain ch where ch: "updates s p = Some ch"
      "updates s1 p = Some (ch\<lparr>as_b := None, mode := BTREE_INTERIOR_UPDATING_AS, journal := None\<rparr>)"
      by force
    have "updates s4 p = updates s1 p"
      using pa by (simp add: us4 us3)
    with K ch obtain c5 where "updates s5 p = Some c5" "mode c5 = BTREE_INTERIOR_UPDATING_AS"
      "as_b c5 = None" "journal c5 = None"
      by force
    then show "\<exists>ch ch'.
            updates s p = Some ch \<and> updates s' p = Some ch' \<and>
            mode ch' = BTREE_INTERIOR_UPDATING_AS \<and> as_b ch' = None \<and> journal ch' = None"
      using ch pa by (simp add: s')
  qed
  from part1 part2 part3 show ?thesis by blast
qed

subsection \<open>The back-reference of a new node\<close>

lemma tag_bit: "(1 OR as) AND 1 = (1 :: u64)"
  by (simp add: bit_eq_iff bit_simps) 

lemma aligned_even: "as AND 1 = 0 \<Longrightarrow> \<not> bit (as :: u64) 0"
  by (simp add: and_one_eq bit_0 even_iff_mod_2_eq_zero)

lemma tag_ptr: "as AND 1 = 0 \<Longrightarrow> (1 OR as) AND NOT 1 = (as :: u64)"
proof -
  assume "as AND 1 = 0"
  then have e: "\<not> bit as 0" by (rule aligned_even)
  show ?thesis
  proof (rule bit_eqI)
    fix n
    show "bit ((1 OR as) AND NOT 1) n = bit as n"
      using e by (cases "n = 0") (auto simp: bit_simps dest: bit_imp_le_length)
  qed
qed

lemma untag_ptr: "as AND 1 = 0 \<Longrightarrow> as AND NOT 1 = (as :: u64)"
proof -
  assume "as AND 1 = 0"
  then have e: "\<not> bit as 0" by (rule aligned_even)
  show ?thesis
  proof (rule bit_eqI)
    fix n
    show "bit (as AND NOT 1) n = bit as n"
      using e by (cases "n = 0") (auto simp: bit_simps dest: bit_imp_le_length)
  qed
qed

lemma tag_ptr' [simp]: "as AND 1 = 0 \<Longrightarrow> (1 OR as) AND - 2 = (as :: u64)"
  using tag_ptr [of as] by simp

lemma untag_ptr' [simp]: "as AND 1 = 0 \<Longrightarrow> as AND - 2 = (as :: u64)"
  using untag_ptr [of as] by simp

lemma clear_events_dropped:
  assumes "nodes s b = Some n" and "will_make_reachable n = 0"
  shows "clear_events s b es = Inr s"
proof (induction es)
  case Nil
  show ?case by simp
next
  case (Cons e es)
  have "n\<lparr>will_make_reachable := 0\<rparr> = n" using assms(2) by simp
  then have same: "s\<lparr>nodes := (nodes s)(b \<mapsto> n\<lparr>will_make_reachable := 0\<rparr>)\<rparr> = s"
    using assms(1) by (simp add: fun_upd_idem)
  have w: "bch2_btree_complete_write s b = Inr s"
    using assms by (simp add: bch2_btree_complete_write_def)
  have d: "btree_update_drop_new_node s b = Inr s"
    using assms same by (simp add: btree_update_drop_new_node_def Let_def)
  show ?case using Cons w d by (cases e) simp_all
qed

lemma clear_events_written:
  assumes "nodes s b = Some n" and "will_make_reachable n = as"
      and "as AND 1 = 0" and "as \<noteq> 0"
      and "updates s as = Some u" and "b \<in> set (new_nodes u)"
  shows "\<exists>s2 n2 u2. clear_events s b es = Inr s2 \<and> nodes s2 b = Some n2 \<and>
           will_make_reachable n2 AND 1 = 0 \<and> updates s2 as = Some u2 \<and>
           cl_remaining u2 = cl_remaining u"
  using assms
proof (induction es arbitrary: s n u)
  case Nil
  then show ?case by simp
next
  case (Cons e es)
  show ?case
  proof (cases e)
    case Write_completed
    have "bch2_btree_complete_write s b = Inr s"
      using Cons.prems by (simp add: bch2_btree_complete_write_def)
    with Cons.IH [OF Cons.prems] Write_completed show ?thesis by simp
  next
    case Node_dropped
    let ?s1 = "s\<lparr>nodes := (nodes s)(b \<mapsto> n\<lparr>will_make_reachable := 0\<rparr>)\<rparr>"
    let ?s2 = "?s1\<lparr>updates := (updates ?s1)(as \<mapsto> u\<lparr>new_nodes := remove_first b (new_nodes u)\<rparr>)\<rparr>"
    have d: "btree_update_drop_new_node s b = Inr ?s2"
      using Cons.prems
      by (simp add: btree_update_drop_new_node_def Let_def untag_ptr)
    have n2: "nodes ?s2 b = Some (n\<lparr>will_make_reachable := 0\<rparr>)" by simp
    have "clear_events ?s2 b es = Inr ?s2"
      by (rule clear_events_dropped [OF n2]) simp
    with d Node_dropped show ?thesis by simp
  qed
qed

text \<open>
  C2. \<^verbatim>\<open>add_new_node\<close> sets the back-reference of the new node \<open>b\<close> to the address of
  the update tagged with the ref-held bit, and takes one reference on the update's
  closure. After any sequence of clearing events on \<open>b\<close> (write completions and drops by
  \<^verbatim>\<open>will_free_node\<close>, in any order and number) the ref-held bit is set exactly when the
  sequence is empty, and the closure has lost exactly one reference when it is not: the
  first clearing event, whichever it is, clears the bit and puts the reference, and no
  later event puts it again.
\<close>

theorem will_make_reachable_lifetime:
  assumes add: "bch2_btree_update_add_new_node uc s as b = Inr s1"
      and upd: "updates s as = Some u"
      and ptr: "as \<noteq> 0" "as AND 1 = 0"
  shows "(\<exists>n1 u1. nodes s1 b = Some n1 \<and> will_make_reachable n1 = 1 OR as \<and>
            updates s1 as = Some u1 \<and> b \<in> set (new_nodes u1) \<and>
            cl_remaining u1 = cl_remaining u + 1) \<and>
         (\<forall>es. \<exists>s2 n2 u2. clear_events s1 b es = Inr s2 \<and>
            nodes s2 b = Some n2 \<and> updates s2 as = Some u2 \<and>
            (will_make_reachable n2 AND 1 \<noteq> 0 \<longleftrightarrow> es = []) \<and>
            cl_remaining u2 = cl_remaining u + 1 - (if es = [] then 0 else 1))"
proof -
  from add upd obtain n u1 where
    n: "nodes s b = Some n" and
    n1: "nodes s1 b = Some (n\<lparr>will_make_reachable := 1 OR as\<rparr>)" and
    u1: "updates s1 as = Some u1" "b \<in> set (new_nodes u1)"
      "cl_remaining u1 = cl_remaining u + 1"
    by (auto simp: bch2_btree_update_add_new_node_def Let_def closure_get_def
        btree_update_will_add_key_def split: option.splits if_splits sum.splits)
  let ?n1 = "n\<lparr>will_make_reachable := 1 OR as\<rparr>"
  have first: "\<exists>n1 u1. nodes s1 b = Some n1 \<and> will_make_reachable n1 = 1 OR as \<and>
            updates s1 as = Some u1 \<and> b \<in> set (new_nodes u1) \<and>
            cl_remaining u1 = cl_remaining u + 1"
    using n1 u1 by simp
  have second: "\<exists>s2 n2 u2. clear_events s1 b es = Inr s2 \<and>
            nodes s2 b = Some n2 \<and> updates s2 as = Some u2 \<and>
            (will_make_reachable n2 AND 1 \<noteq> 0 \<longleftrightarrow> es = []) \<and>
            cl_remaining u2 = cl_remaining u + 1 - (if es = [] then 0 else 1)" for es
  proof (cases es)
    case Nil
    then show ?thesis using n1 u1 by (simp add: tag_bit)
  next
    case (Cons e es')
    show ?thesis
    proof (cases e)
      case Write_completed
      let ?s2 = "s1\<lparr>nodes := (nodes s1)(b \<mapsto> ?n1\<lparr>will_make_reachable := as\<rparr>)\<rparr>"
      let ?s3 = "?s2\<lparr>updates := (updates ?s2)(as \<mapsto> closure_put u1)\<rparr>"
      have w: "bch2_btree_complete_write s1 b = Inr ?s3"
        using n1 u1 ptr by (simp add: bch2_btree_complete_write_def Let_def tag_bit tag_ptr)
      have "\<exists>s2 n2 u2. clear_events ?s3 b es' = Inr s2 \<and> nodes s2 b = Some n2 \<and>
           will_make_reachable n2 AND 1 = 0 \<and> updates s2 as = Some u2 \<and>
           cl_remaining u2 = cl_remaining (closure_put u1)"
        by (rule clear_events_written [where n = "?n1\<lparr>will_make_reachable := as\<rparr>"])
           (use ptr u1 in \<open>simp_all add: closure_put_def\<close>)
      then show ?thesis
        using w Cons Write_completed u1 by (auto simp: closure_put_def)
    next
      case Node_dropped
      let ?s2 = "s1\<lparr>nodes := (nodes s1)(b \<mapsto> ?n1\<lparr>will_make_reachable := 0\<rparr>)\<rparr>"
      let ?s3 = "?s2\<lparr>updates := (updates ?s2)(as \<mapsto>
                   closure_put (u1\<lparr>new_nodes := remove_first b (new_nodes u1)\<rparr>))\<rparr>"
      have d: "btree_update_drop_new_node s1 b = Inr ?s3"
        using n1 u1 ptr
        by (simp add: btree_update_drop_new_node_def Let_def tag_bit tag_ptr)
      have n3: "nodes ?s3 b = Some (?n1\<lparr>will_make_reachable := 0\<rparr>)" by simp
      have "clear_events ?s3 b es' = Inr ?s3"
        by (rule clear_events_dropped [OF n3]) simp
      then show ?thesis
        using d Cons Node_dropped u1 by (simp add: closure_put_def)
    qed
  qed
  from first second show ?thesis by blast
qed

subsection \<open>Witnesses for the update machinery\<close>

theorem will_free_node_reparents_witness:
  "\<not> isl (bch2_btree_interior_update_will_free_node example_update_consts reparent_fs 64 1) \<and>
   map_option mode (updates (projr (bch2_btree_interior_update_will_free_node
       example_update_consts reparent_fs 64 1)) 128) = Some BTREE_INTERIOR_UPDATING_AS \<and>
   map_option journal (updates (projr (bch2_btree_interior_update_will_free_node
       example_update_consts reparent_fs 64 1)) 192) = Some None \<and>
   map_option write_blocked (nodes (projr (bch2_btree_interior_update_will_free_node
       example_update_consts reparent_fs 64 1)) 1) = Some [] \<and>
   map_option journal (updates (projr (bch2_btree_interior_update_will_free_node
       example_update_consts reparent_fs 64 1)) 64) = Some (Some 5)"
proof -
  let ?res = "bch2_btree_interior_update_will_free_node example_update_consts reparent_fs 64 1"
  let ?n = "example_node\<lparr>write_blocked := [128, 192], writes := (Some 7, None)\<rparr>"
  have e: "\<not> isl ?res"
    by (simp add: bch2_btree_interior_update_will_free_node_def reparent_fs_def example_fs_def
        example_node_def Let_def btree_update_reparent_def node_upd_def
        transfer_write_pin_def btree_update_drop_new_node_def btree_update_will_delete_key_def
        example_update_def blocked_update_def keylist_u64s_def example_update_consts_def
        ptr_v2_def)
  then obtain s' where r: "?res = Inr s'" by (cases ?res) auto
  have n: "nodes reparent_fs 1 = Some ?n" by (simp add: reparent_fs_def)
  have nf: "BTREE_NODE_fake \<notin> flags ?n" by (simp add: example_node_def)
  have d: "distinct (write_blocked ?n)" by simp
  have a: "64 \<notin> set (write_blocked ?n)" by simp
  have j: "foldl bch2_journal_pin_copy (Some 9)
             (map (\<lambda>p. journal (the (updates reparent_fs p))) [128, 192] @ [Some 7, None])
           = Some (5 :: u64)"
    by (simp add: reparent_fs_def bch2_journal_pin_copy_def blocked_update_def)
  from will_free_node_reparents [OF r n nf d a] r j show ?thesis
    by (auto simp: reparent_fs_def)
qed

theorem will_make_reachable_lifetime_witness:
  "\<not> isl (bch2_btree_update_add_new_node example_update_consts new_node_fs 64 1) \<and>
   (\<exists>s2 n2 u2.
      clear_events (projr (bch2_btree_update_add_new_node example_update_consts new_node_fs 64 1))
        1 [Write_completed, Node_dropped] = Inr s2 \<and>
      nodes s2 1 = Some n2 \<and> updates s2 64 = Some u2 \<and>
      will_make_reachable n2 AND 1 = 0 \<and> cl_remaining u2 = 0)"
proof -
  let ?res = "bch2_btree_update_add_new_node example_update_consts new_node_fs 64 1"
  have e: "\<not> isl ?res"
    by (simp add: bch2_btree_update_add_new_node_def new_node_fs_def example_fs_def
        example_node_def example_update_def example_update_consts_def Let_def closure_get_def
        btree_update_will_add_key_def keylist_u64s_def ptr_v2_def)
  then obtain s1 where r: "?res = Inr s1" by (cases ?res) auto
  have u: "updates new_node_fs 64 = Some example_update" by (simp add: new_node_fs_def)
  have p: "(64 :: u64) \<noteq> 0" "(64 :: u64) AND 1 = 0" by simp_all
  from will_make_reachable_lifetime [OF r u p]
  have "\<forall>es. \<exists>s2 n2 u2. clear_events s1 1 es = Inr s2 \<and>
            nodes s2 1 = Some n2 \<and> updates s2 64 = Some u2 \<and>
            (will_make_reachable n2 AND 1 \<noteq> 0 \<longleftrightarrow> es = []) \<and>
            cl_remaining u2 = cl_remaining example_update + 1 - (if es = [] then 0 else 1)"
    by (rule conjunct2)
  then have "\<exists>s2 n2 u2. clear_events s1 1 [Write_completed, Node_dropped] = Inr s2 \<and>
            nodes s2 1 = Some n2 \<and> updates s2 64 = Some u2 \<and>
            (will_make_reachable n2 AND 1 \<noteq> 0 \<longleftrightarrow> [Write_completed, Node_dropped] = []) \<and>
            cl_remaining u2 = cl_remaining example_update + 1 -
              (if [Write_completed, Node_dropped] = [] then 0 else 1)"
    by (rule spec)
  then show ?thesis
    using r by (simp add: example_update_def del: clear_events.simps)
qed

subsection \<open>Starting an update: the journal pre-reservation\<close>

lemma update_upd_simps [simp]:
  "nodes (update_upd s r f) = nodes s"
  "updates (update_upd s r f) = (updates s)(r := map_option f (updates s r))"
  "calls (update_upd s r f) = calls s"
  "btree_reserve_cache (update_upd s r f) = btree_reserve_cache s"
  "journal_prereserved (update_upd s r f) = journal_prereserved s"
  "disk_reserved (update_upd s r f) = disk_reserved s"
  "open_buckets_freed (update_upd s r f) = open_buckets_freed s"
  "btree_roots (update_upd s r f) = btree_roots s"
  "btree_interior_update_list (update_upd s r f) = btree_interior_update_list s"
  "btree_interior_updates_unwritten (update_upd s r f) = btree_interior_updates_unwritten s"
  by (simp_all add: update_upd_def)

lemma preres_call_calls:
  "journal_preres_get_call uc env s as jf = (ret, s') \<Longrightarrow>
     ret = preres_get env jf \<and>
     calls s' = calls s @ [Journal_preres_get (BTREE_UPDATE_JOURNAL_RES uc) jf] \<and>
     (ret \<noteq> 0 \<longrightarrow> updates s' = updates s)"
  by (auto simp: journal_preres_get_call_def Let_def split: if_splits)

lemma btree_node_free_calls: "btree_node_free s b = Inr s' \<Longrightarrow> calls s' = calls s"
  by (auto simp: btree_node_free_def split: option.splits if_splits)

lemma reserve_put_nodes_calls:
  "reserve_put_nodes uc s as bs = Inr s' \<Longrightarrow> calls s' = calls s"
proof (induction bs arbitrary: s)
  case Nil
  then show ?case by simp
next
  case (Cons b bs)
  then show ?case
    by (auto simp: Let_def split: option.splits sum.splits if_splits
        dest!: btree_node_free_calls)
qed

lemma update_free_calls: "bch2_btree_update_free uc s as = Inr s' \<Longrightarrow> calls s' = calls s"
  by (auto simp: bch2_btree_update_free_def bch2_btree_reserve_put_def Let_def
      split: option.splits sum.splits dest!: reserve_put_nodes_calls)

lemma alloc_reserve_calls:
  "btree_node_alloc_reserve uc env fl s i = Inr (r, s') \<Longrightarrow> calls s' = calls s"
  by (auto simp: btree_node_alloc_reserve_def Let_def split: sum.splits option.splits if_splits prod.splits)

lemma reserve_get_loop_calls:
  "reserve_get_loop uc env fl s as n = Inr (r, s') \<Longrightarrow> calls s' = calls s"
proof (induction n arbitrary: s)
  case 0
  then show ?case by simp
next
  case (Suc n)
  then show ?case
    by (auto simp: Let_def split: option.splits sum.splits if_splits prod.splits
        dest!: alloc_reserve_calls)
qed

lemma reserve_get_calls:
  "bch2_btree_reserve_get uc env fl s as n = Inr (r, s') \<Longrightarrow> calls s' = calls s"
  by (auto simp: bch2_btree_reserve_get_def split: if_splits option.splits
      dest!: reserve_get_loop_calls)

lemma start_reserve_calls:
  "update_start_reserve uc env s as n fl = Inr (r, s') \<Longrightarrow> calls s' = calls s"
  by (auto simp: update_start_reserve_def Let_def split: if_splits sum.splits prod.splits
      dest!: reserve_get_calls update_free_calls)

lemma update_free_no_prealloc:
  assumes "updates s as = Some u" and "prealloc_nodes u = []"
  shows "bch2_btree_update_free uc s as =
     Inr (s\<lparr>journal_prereserved := journal_prereserved s - journal_preres u,
            disk_reserved := disk_reserved s - disk_res u,
            btree_interior_updates_unwritten := removeAll as (btree_interior_updates_unwritten s),
            btree_interior_update_list := removeAll as (btree_interior_update_list s),
            updates := (updates s)(as := None)\<rparr>)"
  using assms
  by (simp add: bch2_btree_update_free_def bch2_btree_reserve_put_def Let_def)

text \<open>
  C7. \<^verbatim>\<open>bch2_btree_update_start\<close> returns the error of the journal, leaving the state
  as it was, when the journal is in error state. Otherwise its first call is the
  non-blocking pre-reservation of \<^verbatim>\<open>BTREE_UPDATE_JOURNAL_RES\<close>. When that returns
  \<^verbatim>\<open>-EAGAIN\<close>: with \<^verbatim>\<open>BTREE_INSERT_NOUNLOCK\<close> the function returns \<^verbatim>\<open>-EINTR\<close> (restart)
  having made no other call; without it the function unlocks the transaction, takes the
  pre-reservation blocking (returning its error if it fails), locks again, and returns
  \<^verbatim>\<open>-EINTR\<close> when the locks cannot be taken again. In every case the calls are made in
  this order and no other journal or lock call is made.
\<close>

theorem update_start_journal_reservation:
  "(journal_error s \<noteq> 0 \<longrightarrow>
      bch2_btree_update_start uc env s bid n fl = Inr (Inl (journal_error s), s)) \<and>
   (journal_error s = 0 \<longrightarrow>
      (preres_get env (start_journal_flags fl \<union> {JOURNAL_RES_GET_NONBLOCK}) = - EAGAIN \<longrightarrow>
         (BTREE_INSERT_NOUNLOCK \<in> fl \<longrightarrow>
            (\<exists>s'. bch2_btree_update_start uc env s bid n fl = Inr (Inl (- EINTR), s') \<and>
                  calls s' = calls s @
                    [Journal_preres_get (BTREE_UPDATE_JOURNAL_RES uc)
                       (start_journal_flags fl \<union> {JOURNAL_RES_GET_NONBLOCK})])) \<and>
         (BTREE_INSERT_NOUNLOCK \<notin> fl \<longrightarrow>
            (preres_get env (start_journal_flags fl) \<noteq> 0 \<longrightarrow>
               (\<exists>s'. bch2_btree_update_start uc env s bid n fl =
                        Inr (Inl (preres_get env (start_journal_flags fl)), s') \<and>
                     calls s' = calls s @
                       [Journal_preres_get (BTREE_UPDATE_JOURNAL_RES uc)
                          (start_journal_flags fl \<union> {JOURNAL_RES_GET_NONBLOCK}),
                        Trans_unlock,
                        Journal_preres_get (BTREE_UPDATE_JOURNAL_RES uc) (start_journal_flags fl)])) \<and>
            (preres_get env (start_journal_flags fl) = 0 \<longrightarrow>
               (\<not> trans_relock env \<longrightarrow>
                  (\<exists>s'. bch2_btree_update_start uc env s bid n fl = Inr (Inl (- EINTR), s') \<and>
                        calls s' = calls s @
                          [Journal_preres_get (BTREE_UPDATE_JOURNAL_RES uc)
                             (start_journal_flags fl \<union> {JOURNAL_RES_GET_NONBLOCK}),
                           Trans_unlock,
                           Journal_preres_get (BTREE_UPDATE_JOURNAL_RES uc) (start_journal_flags fl),
                           Trans_relock])) \<and>
               (trans_relock env \<longrightarrow>
                  (\<forall>r s'. bch2_btree_update_start uc env s bid n fl = Inr (r, s') \<longrightarrow>
                        calls s' = calls s @
                          [Journal_preres_get (BTREE_UPDATE_JOURNAL_RES uc)
                             (start_journal_flags fl \<union> {JOURNAL_RES_GET_NONBLOCK}),
                           Trans_unlock,
                           Journal_preres_get (BTREE_UPDATE_JOURNAL_RES uc) (start_journal_flags fl),
                           Trans_relock]))))) \<and>
      (preres_get env (start_journal_flags fl \<union> {JOURNAL_RES_GET_NONBLOCK}) \<noteq> - EAGAIN \<longrightarrow>
         (\<forall>r s'. bch2_btree_update_start uc env s bid n fl = Inr (r, s') \<longrightarrow>
               calls s' = calls s @
                 [Journal_preres_get (BTREE_UPDATE_JOURNAL_RES uc)
                    (start_journal_flags fl \<union> {JOURNAL_RES_GET_NONBLOCK})])))"
proof -
  let ?jf = "start_journal_flags fl"
  let ?nb = "insert JOURNAL_RES_GET_NONBLOCK ?jf"
  let ?as = "new_update env"
  let ?s1 = "s\<lparr>updates := (updates s)(?as \<mapsto> btree_update_init bid)\<rparr>"
  let ?start = "bch2_btree_update_start uc env s bid n fl"
  obtain ret s2 where c1: "journal_preres_get_call uc env ?s1 ?as ?nb = (ret, s2)"
    by (cases "journal_preres_get_call uc env ?s1 ?as ?nb") auto
  note p1 = preres_call_calls [OF c1]
  have cs2: "calls s2 = calls s @ [Journal_preres_get (BTREE_UPDATE_JOURNAL_RES uc) ?nb]"
    using p1 by simp
  have r1: "ret = preres_get env ?nb" using p1 by simp
  let ?s3 = "s2\<lparr>calls := calls s2 @ [Trans_unlock]\<rparr>"
  obtain ret1 s4 where c2: "journal_preres_get_call uc env ?s3 ?as ?jf = (ret1, s4)"
    by (cases "journal_preres_get_call uc env ?s3 ?as ?jf") auto
  note p2 = preres_call_calls [OF c2]
  have cs4: "calls s4 = calls s @ [Journal_preres_get (BTREE_UPDATE_JOURNAL_RES uc) ?nb,
      Trans_unlock, Journal_preres_get (BTREE_UPDATE_JOURNAL_RES uc) ?jf]"
    using p2 cs2 by simp
  have r2: "ret1 = preres_get env ?jf" using p2 by simp
  let ?s5 = "s4\<lparr>calls := calls s4 @ [Trans_relock]\<rparr>"
  have eagain: "- EAGAIN \<noteq> (0 :: int)" by (simp add: EAGAIN_def)
  have A: "journal_error s \<noteq> 0 \<Longrightarrow> ?start = Inr (Inl (journal_error s), s)"
    by (simp add: bch2_btree_update_start_def)
  have B: "?start = Inr (Inl (- EINTR), s2)"
    if "journal_error s = 0" "preres_get env ?nb = - EAGAIN" "BTREE_INSERT_NOUNLOCK \<in> fl"
    using that r1 by (simp add: bch2_btree_update_start_def Let_def c1)
  have C: "?start = Inr (Inl (preres_get env ?jf), s4)"
    if "journal_error s = 0" "preres_get env ?nb = - EAGAIN" "BTREE_INSERT_NOUNLOCK \<notin> fl"
       "preres_get env ?jf \<noteq> 0"
    using that r1 r2 by (simp add: bch2_btree_update_start_def Let_def c1 c2)
  have D: "\<exists>s'. ?start = Inr (Inl (- EINTR), s') \<and> calls s' = calls ?s5"
    if h: "journal_error s = 0" "preres_get env ?nb = - EAGAIN" "BTREE_INSERT_NOUNLOCK \<notin> fl"
       "preres_get env ?jf = 0" "\<not> trans_relock env"
  proof -
    have u2: "updates s2 = updates ?s1" using p1 h eagain by simp
    have "\<exists>u. updates ?s5 ?as = Some u \<and> prealloc_nodes u = []"
      using c2 h u2
      by (auto simp: journal_preres_get_call_def Let_def btree_update_init_def)
    then obtain u where u: "updates ?s5 ?as = Some u" "prealloc_nodes u = []" by blast
    from update_free_no_prealloc [OF u, of uc] obtain s6 where
      f: "bch2_btree_update_free uc ?s5 ?as = Inr s6" and "calls s6 = calls ?s5"
      by simp
    then show ?thesis
      using h r1 r2 by (simp add: bch2_btree_update_start_def Let_def c1 c2)
  qed
  have E: "calls s' = calls ?s5"
    if h: "journal_error s = 0" "preres_get env ?nb = - EAGAIN" "BTREE_INSERT_NOUNLOCK \<notin> fl"
       "preres_get env ?jf = 0" "trans_relock env" "?start = Inr (r, s')" for r s'
  proof -
    from h r1 r2 have "update_start_reserve uc env ?s5 ?as n fl = Inr (r, s')"
      by (simp add: bch2_btree_update_start_def Let_def c1 c2)
    then show ?thesis by (rule start_reserve_calls)
  qed
  have F: "calls s' = calls s2"
    if h: "journal_error s = 0" "preres_get env ?nb \<noteq> - EAGAIN" "?start = Inr (r, s')" for r s'
  proof -
    from h r1 have "update_start_reserve uc env s2 ?as n fl = Inr (r, s')"
      by (simp add: bch2_btree_update_start_def Let_def c1)
    then show ?thesis by (rule start_reserve_calls)
  qed
  show ?thesis
    apply (intro conjI impI allI)
    subgoal using A by simp
    subgoal using B cs2 by simp
    subgoal using C cs4 by simp
    subgoal using D cs4 by simp
    subgoal for r s' using E [of r s'] cs4 by simp
    subgoal for r s' using F [of r s'] cs2 by simp
    done
qed

theorem update_start_journal_reservation_witness:
  "journal_error example_fs = 0 \<and>
   preres_get (journal_full_env 0) (start_journal_flags {} \<union> {JOURNAL_RES_GET_NONBLOCK}) = - EAGAIN \<and>
   BTREE_INSERT_NOUNLOCK \<notin> ({} :: btree_insert_flag set) \<and>
   preres_get (journal_full_env 0) (start_journal_flags {}) = 0 \<and>
   \<not> trans_relock (journal_full_env 0) \<and>
   (\<exists>s'. bch2_btree_update_start example_update_consts (journal_full_env 0) example_fs 0 1 {} =
            Inr (Inl (- EINTR), s') \<and>
         calls s' = [Journal_preres_get 128 {JOURNAL_RES_GET_NONBLOCK}, Trans_unlock,
                     Journal_preres_get 128 {}, Trans_relock])"
  using update_start_journal_reservation [where s = example_fs and env = "journal_full_env 0"
      and uc = example_update_consts and bid = 0 and n = 1 and fl = "{}"]
  by (simp add: journal_full_env_def example_fs_def start_journal_flags_def
      example_update_consts_def EAGAIN_def)

subsection \<open>Starting an update: what an error exit leaves behind\<close>

text \<open>
  C8. Three calls of \<^verbatim>\<open>bch2_btree_update_start\<close> that end in an error. With
  \<^verbatim>\<open>BTREE_INSERT_NOUNLOCK\<close> and a journal that answers \<^verbatim>\<open>-EAGAIN\<close>, and likewise when
  the blocking pre-reservation fails, the function returns without
  \<^verbatim>\<open>bch2_btree_update_free\<close>: the update 64 taken from the pool is still allocated in
  the state the call leaves. When \<^verbatim>\<open>bch2_mark_bkey_replicas\<close> fails for a node just
  allocated, the update is freed, but the node keeps its open bucket 7: it was not yet
  among the preallocated nodes, so the bucket reaches neither the reserve cache nor the
  allocator.
\<close>

theorem update_start_leaks_update:
  "bch2_btree_update_start example_update_consts (journal_full_env (- 30)) example_fs 0 1
     {BTREE_INSERT_NOUNLOCK} =
     Inr (Inl (- EINTR),
          example_fs\<lparr>updates := [64 \<mapsto> btree_update_init 0],
                     calls := [Journal_preres_get 128 {JOURNAL_RES_GET_NONBLOCK}]\<rparr>) \<and>
   bch2_btree_update_start example_update_consts (journal_full_env (- 30)) example_fs 0 1 {} =
     Inr (Inl (- 30),
          example_fs\<lparr>updates := [64 \<mapsto> btree_update_init 0],
                     calls := [Journal_preres_get 128 {JOURNAL_RES_GET_NONBLOCK}, Trans_unlock,
                               Journal_preres_get 128 {}]\<rparr>) \<and>
   bch2_btree_update_start example_update_consts mark_fails_env free_node_fs 0 1 {} =
     Inr (Inl (- 12),
          free_node_fs\<lparr>nodes := [1 \<mapsto> example_node\<lparr>key := ptr_v2 0 0, ob := [7]\<rparr>],
                       calls := [Journal_preres_get 128 {JOURNAL_RES_GET_NONBLOCK}]\<rparr>)"
  by (simp add: bch2_btree_update_start_def journal_preres_get_call_def Let_def
      journal_full_env_def mark_fails_env_def free_node_fs_def example_fs_def
      start_journal_flags_def example_update_consts_def EAGAIN_def EINTR_def
      update_upd_def btree_update_init_def update_start_reserve_def
      bch2_btree_reserve_get_def btree_node_alloc_reserve_def bch2_btree_update_free_def
      bch2_btree_reserve_put_def bch2_journal_pin_drop_def example_node_def)

subsection \<open>The level of a root\<close>

lemma set_root_inmem_Inr:
  assumes "bch2_btree_set_root_inmem s b = Inr s'"
  shows "\<exists>n. nodes s b = Some n \<and>
           s' = s\<lparr>nodes := (nodes s)(b \<mapsto> n\<lparr>cache_list := None\<rparr>),
                  btree_roots := (btree_roots s)(btree_id n \<mapsto> b)\<rparr> \<and>
           (\<forall>r old. btree_roots s (btree_id n) = Some r \<and> nodes s r = Some old \<longrightarrow>
              level old \<le> level n \<and> BTREE_NODE_dying \<in> flags old)"
proof -
  from assms obtain n where n: "nodes s b = Some n"
    by (auto simp: bch2_btree_set_root_inmem_def split: option.splits)
  show ?thesis
  proof (cases "btree_roots s (btree_id n)")
    case None
    with assms n show ?thesis
      by (auto simp: bch2_btree_set_root_inmem_def Let_def)
  next
    case (Some r)
    show ?thesis
    proof (cases "r = b")
      case True
      with assms n Some show ?thesis
        by (auto simp: bch2_btree_set_root_inmem_def Let_def split: if_splits)
    next
      case False
      with assms n Some show ?thesis
        by (auto simp: bch2_btree_set_root_inmem_def Let_def split: if_splits option.splits)
    qed
  qed
qed

lemma updated_root_frame:
  assumes "btree_update_updated_root uc s as b = Inr s'"
  shows "nodes s' = nodes s \<and> btree_roots s' = btree_roots s"
  using assms
  by (auto simp: btree_update_updated_root_def split: option.splits if_splits)

text \<open>
  C10. When \<^verbatim>\<open>bch2_btree_set_root_inmem\<close> returns, the node is the root of its btree
  and is on no list of the node cache, and if the btree had a root before, the level of
  the new root is at least the level of the old one and the old one is marked dying.
  When \<^verbatim>\<open>bch2_btree_set_root\<close> returns, there was an old root, and the same holds.
\<close>

theorem set_root_level_never_decreases:
  "(\<forall>s'. bch2_btree_set_root_inmem s b = Inr s' \<longrightarrow>
      (\<exists>n n'. nodes s b = Some n \<and> nodes s' b = Some n' \<and> cache_list n' = None \<and>
         btree_roots s' (btree_id n) = Some b \<and>
         (\<forall>r old. btree_roots s (btree_id n) = Some r \<and> nodes s r = Some old \<longrightarrow>
            level old \<le> level n \<and> BTREE_NODE_dying \<in> flags old))) \<and>
   (\<forall>s'. bch2_btree_set_root uc s as b = Inr s' \<longrightarrow>
      (\<exists>n n' r old. nodes s b = Some n \<and> nodes s' b = Some n' \<and> cache_list n' = None \<and>
         btree_roots s' (btree_id n) = Some b \<and>
         btree_roots s (btree_id n) = Some r \<and> nodes s r = Some old \<and>
         level old \<le> level n \<and> BTREE_NODE_dying \<in> flags old))"
proof (intro conjI allI impI)
  fix s' assume "bch2_btree_set_root_inmem s b = Inr s'"
  from set_root_inmem_Inr [OF this]
  show "\<exists>n n'. nodes s b = Some n \<and> nodes s' b = Some n' \<and> cache_list n' = None \<and>
         btree_roots s' (btree_id n) = Some b \<and>
         (\<forall>r old. btree_roots s (btree_id n) = Some r \<and> nodes s r = Some old \<longrightarrow>
            level old \<le> level n \<and> BTREE_NODE_dying \<in> flags old)"
    by auto
next
  fix s' assume a: "bch2_btree_set_root uc s as b = Inr s'"
  then obtain n r s1 where n: "nodes s b = Some n" and r: "btree_roots s (btree_id n) = Some r"
    and i: "bch2_btree_set_root_inmem s b = Inr s1"
    and u: "btree_update_updated_root uc s1 as b = Inr s'"
    by (auto simp: bch2_btree_set_root_def split: option.splits if_splits sum.splits)
  from i n r obtain old where old: "nodes s r = Some old"
    by (cases "r = b") (auto simp: bch2_btree_set_root_inmem_def Let_def split: option.splits)
  from set_root_inmem_Inr [OF i] n r old updated_root_frame [OF u]
  show "\<exists>n n' r old. nodes s b = Some n \<and> nodes s' b = Some n' \<and> cache_list n' = None \<and>
         btree_roots s' (btree_id n) = Some b \<and>
         btree_roots s (btree_id n) = Some r \<and> nodes s r = Some old \<and>
         level old \<le> level n \<and> BTREE_NODE_dying \<in> flags old"
    by auto
qed

theorem set_root_level_never_decreases_witness:
  "\<not> isl (bch2_btree_set_root example_update_consts root_fs 64 2) \<and>
   map_option level (nodes root_fs 1) = Some 1 \<and>
   map_option level (nodes root_fs 2) = Some 2 \<and>
   btree_roots (projr (bch2_btree_set_root example_update_consts root_fs 64 2)) 0 = Some 2 \<and>
   map_option cache_list
     (nodes (projr (bch2_btree_set_root example_update_consts root_fs 64 2)) 2) = Some None"
proof -
  let ?res = "bch2_btree_set_root example_update_consts root_fs 64 2"
  have e: "\<not> isl ?res"
    by (simp add: bch2_btree_set_root_def bch2_btree_set_root_inmem_def
        btree_update_updated_root_def root_fs_def example_fs_def example_node_def
        example_update_def example_update_consts_def journal_u64s_def ptr_v2_def Let_def)
  then obtain s' where r: "?res = Inr s'" by (cases ?res) auto
  have "\<forall>s'. ?res = Inr s' \<longrightarrow>
      (\<exists>n n' r old. nodes root_fs 2 = Some n \<and> nodes s' 2 = Some n' \<and> cache_list n' = None \<and>
         btree_roots s' (btree_id n) = Some 2 \<and>
         btree_roots root_fs (btree_id n) = Some r \<and> nodes root_fs r = Some old \<and>
         level old \<le> level n \<and> BTREE_NODE_dying \<in> flags old)"
    using set_root_level_never_decreases [of root_fs 2 example_update_consts 64]
    by (rule conjunct2)
  with r show ?thesis
    by (auto simp: root_fs_def example_fs_def example_node_def)
qed

end
